(* ===== verification/Prelude.thy ===== *)
theory Prelude
  imports Complex_Main "HOL-Library.Word" "HOL-Library.Stream" "HOL-Library.Sublist"
    "HOL-Library.Multiset"
begin

text \<open>
  Shared vocabulary of the development.
  \<^item> Python's \<open>str\<close> is a sequence of Unicode code points; it is modelled as \<open>ustr\<close>, a list
    of natural numbers, and \<open>u\<close> turns an ASCII literal into one.
  \<^item> \<open>py_error\<close> lists the exceptions the modelled code can raise.
  \<^item> The module-level generator of Python's \<open>random\<close> (a Mersenne Twister) is modelled by the
    infinite stream of 32-bit words it outputs (\<open>mt_stream\<close>). A computation that draws from it,
    may raise and may run forever has type \<open>'a rnd\<close>: \<open>None\<close> is "does not return",
    \<open>Some (Inl e, s)\<close> a raised exception, \<open>Some (Inr x, s)\<close> a result, with the words
    left in \<open>s\<close>.
  \<^item> \<open>py_set_list h xs\<close> is \<open>list(set(xs))\<close>: the distinct elements of \<open>xs\<close> in the order
    in which the hash table lists them. That order depends on the per-process string hash
    seed; it is modelled by a rank \<open>h\<close> (the slot), ties broken by insertion order, and every
    theorem is stated for every \<open>h\<close>. Lemma \<open>py_set_list_any_order\<close> shows that every
    order of the distinct elements is obtained for some \<open>h\<close>, so nothing is lost.
\<close>

named_theorems py_eval "equations used to evaluate the model on concrete inputs"

type_synonym ustr = "nat list"

type_synonym mt_stream = "32 word stream"

datatype py_error =
    IndexError
  | ValueError
  | TypeError
  | KeyError
  | FileNotFoundError
  | JSONDecodeError
  | AttributeError
  | UnidentifiedImageError

type_synonym 'a rnd = "mt_stream \<Rightarrow> ((py_error + 'a) \<times> mt_stream) option"

definition u :: "string \<Rightarrow> ustr" where
  "u s = map of_char s"

definition rreturn :: "'a \<Rightarrow> 'a rnd" where
  "rreturn x = (\<lambda>s. Some (Inr x, s))"

definition rraise :: "py_error \<Rightarrow> 'a rnd" where
  "rraise e = (\<lambda>s. Some (Inl e, s))"

definition rlift :: "py_error + 'a \<Rightarrow> 'a rnd" where
  "rlift r = (\<lambda>s. Some (r, s))"

definition rbind :: "'a rnd \<Rightarrow> ('a \<Rightarrow> 'b rnd) \<Rightarrow> 'b rnd" where
  "rbind m f = (\<lambda>s. case m s of
       None \<Rightarrow> None
     | Some (Inl e, s') \<Rightarrow> Some (Inl e, s')
     | Some (Inr x, s') \<Rightarrow> f x s')"

definition py_set_list :: "('a \<Rightarrow> nat) \<Rightarrow> 'a list \<Rightarrow> 'a list" where
  "py_set_list h xs = sort_key h (remdups xs)"

primrec pos_in :: "'a list \<Rightarrow> 'a \<Rightarrow> nat" where
  "pos_in [] x = 0"
| "pos_in (y # ys) x = (if x = y then 0 else Suc (pos_in ys x))"

fun max_key_from :: "('a \<Rightarrow> 'b::linorder) \<Rightarrow> 'a \<Rightarrow> 'a list \<Rightarrow> 'a" where
  "max_key_from f m [] = m"
| "max_key_from f m (x # xs) = max_key_from f (if f m < f x then x else m) xs"

definition py_max_key :: "('a \<Rightarrow> 'b::linorder) \<Rightarrow> 'a list \<Rightarrow> py_error + 'a" where
  "py_max_key f xs = (case xs of [] \<Rightarrow> Inl ValueError | x # xs' \<Rightarrow> Inr (max_key_from f x xs'))"

definition first_max :: "('a \<Rightarrow> 'b::linorder) \<Rightarrow> 'a list \<Rightarrow> 'a" where
  "first_max f xs = hd (filter (\<lambda>x. f x = Max (f ` set xs)) xs)"

subsection \<open>The result type \<open>'a rnd\<close>\<close>

lemma rbind_rreturn [simp]: "rbind (rreturn x) f = f x"
  by (simp add: rbind_def rreturn_def)

lemma rbind_rraise [simp]: "rbind (rraise e) f = rraise e"
  by (simp add: rbind_def rraise_def)

lemma rbind_rlift [simp]:
  "rbind (rlift r) f = (case r of Inl e \<Rightarrow> rraise e | Inr x \<Rightarrow> f x)"
  by (auto simp: rbind_def rlift_def rraise_def split: sum.splits)

lemma rbind_assoc: "rbind (rbind m f) g = rbind m (\<lambda>x. rbind (f x) g)"
  by (auto simp: rbind_def fun_eq_iff split: option.splits sum.splits)

lemma rbind_apply:
  "rbind m f s = (case m s of
       None \<Rightarrow> None
     | Some (Inl e, s') \<Rightarrow> Some (Inl e, s')
     | Some (Inr x, s') \<Rightarrow> f x s')"
  by (simp add: rbind_def)

lemma rbind_Some_Inr:
  "rbind m f s = Some (Inr y, s'') \<longleftrightarrow>
     (\<exists>x s'. m s = Some (Inr x, s') \<and> f x s' = Some (Inr y, s''))"
  by (auto simp: rbind_def split: option.splits sum.splits)

lemma rbind_Some_Inl:
  "rbind m f s = Some (Inl e, s'') \<longleftrightarrow>
     m s = Some (Inl e, s'') \<or> (\<exists>x s'. m s = Some (Inr x, s') \<and> f x s' = Some (Inl e, s''))"
  by (auto simp: rbind_def split: option.splits sum.splits)

lemma rbind_None:
  "rbind m f s = None \<longleftrightarrow> m s = None \<or> (\<exists>x s'. m s = Some (Inr x, s') \<and> f x s' = None)"
  by (auto simp: rbind_def split: option.splits sum.splits)

lemmas rnd_simps [py_eval] = rreturn_def rraise_def rlift_def rbind_apply Let_def py_set_list_def

subsection \<open>\<open>list(set(xs))\<close>\<close>

lemma set_py_set_list [simp]: "set (py_set_list h xs) = set xs"
  by (simp add: py_set_list_def)

lemma distinct_py_set_list [simp, intro]: "distinct (py_set_list h xs)"
  by (simp add: py_set_list_def)

lemma length_py_set_list: "length (py_set_list h xs) = card (set xs)"
  by (simp add: py_set_list_def length_remdups_card_conv)

lemma length_py_set_list_le: "length (py_set_list h xs) \<le> length xs"
  by (simp add: py_set_list_def)

lemma py_set_list_Nil_iff [simp]: "py_set_list h xs = [] \<longleftrightarrow> xs = []"
  by (metis set_empty set_py_set_list)

lemma pos_in_nth: "distinct ys \<Longrightarrow> i < length ys \<Longrightarrow> pos_in ys (ys ! i) = i"
proof (induction ys arbitrary: i)
  case Nil
  then show ?case by simp
next
  case (Cons y ys)
  then show ?case by (cases i) (auto simp: nth_mem)
qed

lemma map_pos_in_self: "distinct ys \<Longrightarrow> map (pos_in ys) ys = [0..<length ys]"
  by (rule nth_equalityI) (simp_all add: pos_in_nth)

lemma inj_on_pos_in: "distinct ys \<Longrightarrow> inj_on (pos_in ys) (set ys)"
  by (metis in_set_conv_nth inj_onI pos_in_nth)

lemma py_set_list_any_order:
  assumes "distinct ys" and "set ys = set xs"
  shows "py_set_list (pos_in ys) xs = ys"
proof -
  have "mset (remdups xs) = mset ys"
    using assms by (simp add: set_eq_iff_mset_eq_distinct [symmetric])
  moreover have "inj_on (pos_in ys) (set (remdups xs))"
    using assms by (metis inj_on_pos_in set_remdups)
  moreover have "sorted (map (pos_in ys) ys)"
    using assms(1) by (simp add: map_pos_in_self)
  ultimately show ?thesis
    unfolding py_set_list_def by (rule sort_key_inj_key_eq)
qed

subsection \<open>Lists and sub-multisets\<close>

lemma dropWhile_Cons_not: "dropWhile P xs = y # ys \<Longrightarrow> \<not> P y"
  by (metis dropWhile_eq_Cons_conv)

lemma distinct_subset_mset:
  assumes sub: "mset xs \<subseteq># mset ys" and dist: "distinct ys"
  shows "distinct xs"
proof -
  have le: "count (mset xs) a \<le> 1" for a
  proof -
    have "count (mset xs) a \<le> count (mset ys) a"
      using sub by (rule mset_subset_eq_count)
    also have "\<dots> \<le> 1"
      using dist by (simp add: distinct_count_atmost_1)
    finally show ?thesis .
  qed
  have "count (mset xs) a = (if a \<in> set xs then 1 else 0)" for a
    using le [of a] by (cases "a \<in> set xs") (simp_all add: count_eq_zero_iff le_antisym Suc_le_eq)
  then show ?thesis
    by (simp add: distinct_count_atmost_1)
qed

lemma mset_subset_eq_length_eq:
  assumes "mset xs \<subseteq># mset ys" and "length xs = length ys"
  shows "mset xs = mset ys"
proof -
  obtain C where C: "mset ys = mset xs + C" using assms(1) by (metis subset_mset.le_iff_add)
  then have "size C = 0" using assms(2) by (metis add_left_cancel add.right_neutral size_mset size_union)
  then show ?thesis using C by simp
qed

lemma take_distinct_length:
  "distinct xs \<Longrightarrow> length (take n xs) = min n (card (set xs))"
  by (simp add: distinct_card)

subsection \<open>\<open>max(xs, key=f)\<close>\<close>

text \<open>CPython's \<open>max\<close> keeps the running maximum and replaces it only by a strictly
  greater key, so it returns the first element whose key is the maximum (\<open>first_max\<close>).\<close>

lemma max_key_from_first_max:
  "max_key_from f m xs = first_max f (m # xs)"
proof (induction xs arbitrary: m)
  case Nil
  then show ?case by (simp add: first_max_def)
next
  case (Cons x xs)
  let ?M = "Max (f ` set (m # x # xs))"
  have fm: "f m \<le> ?M" and fx: "f x \<le> ?M" by (intro Max_ge; simp)+
  show ?case
  proof (cases "f m < f x")
    case True
    have "f x \<le> Max (f ` set (x # xs))" by (intro Max_ge) auto
    with True have le: "f m \<le> Max (f ` set (x # xs))"
      by (meson less_le_trans less_imp_le)
    have "?M = max (f m) (Max (f ` set (x # xs)))"
      using Max_insert [of "f ` set (x # xs)" "f m"] by simp
    with le have M: "Max (f ` set (x # xs)) = ?M"
      by (simp add: max_def)
    have "f m \<noteq> ?M"
      using True fx by auto
    then have "first_max f (m # x # xs) = first_max f (x # xs)"
      unfolding first_max_def M by simp
    with True show ?thesis
      using Cons.IH [of x] by simp
  next
    case False
    then have xm: "f x \<le> f m" by (simp add: not_less)
    have "f m \<le> Max (f ` set (m # xs))" by (intro Max_ge) auto
    with xm have le: "f x \<le> Max (f ` set (m # xs))" by (rule order_trans)
    have "?M = max (f x) (Max (f ` set (m # xs)))"
      using Max_insert [of "f ` set (m # xs)" "f x"] by (simp add: insert_commute)
    with le have M: "Max (f ` set (m # xs)) = ?M"
      by (simp add: max_def)
    have "first_max f (m # x # xs) = first_max f (m # xs)"
    proof (cases "f m = ?M")
      case True
      then show ?thesis unfolding first_max_def M by simp
    next
      case False
      with xm fm have "f x \<noteq> ?M" by (metis antisym)
      with False show ?thesis unfolding first_max_def M by simp
    qed
    with \<open>\<not> f m < f x\<close> show ?thesis
      using Cons.IH [of m] by simp
  qed
qed

lemma py_max_key_first_max:
  "xs \<noteq> [] \<Longrightarrow> py_max_key f xs = Inr (first_max f xs)"
  by (cases xs) (simp_all add: py_max_key_def max_key_from_first_max)

lemma first_max_props:
  assumes "xs \<noteq> []"
  shows "first_max f xs \<in> set xs \<and> (\<forall>y \<in> set xs. f y \<le> f (first_max f xs))"
proof -
  let ?M = "Max (f ` set xs)"
  have "?M \<in> f ` set xs" using assms by simp
  then have ne: "filter (\<lambda>x. f x = ?M) xs \<noteq> []"
    by (auto simp: filter_empty_conv)
  then have "first_max f xs \<in> set (filter (\<lambda>x. f x = ?M) xs)"
    unfolding first_max_def by (rule hd_in_set)
  moreover have "\<forall>y \<in> set xs. f y \<le> ?M"
    by (auto intro: Max_ge)
  ultimately show ?thesis by auto
qed

end
