(* ===== verification/PyStr.thy ===== *)
theory PyStr
  imports Prelude
begin

text \<open>
  The Python \<open>str\<close> built-ins the source calls, on \<open>ustr\<close> (lists of code points):
  \<open>str.split()\<close> without a separator (\<open>py_split\<close>, CPython's \<open>split_whitespace\<close> loop
  over \<open>Py_UNICODE_ISSPACE\<close>), \<open>str.lower()\<close> (\<open>py_lower\<close>, on ASCII and Latin-1; code
  points above U+00FF are left unchanged here, whereas CPython also lowercases them from its
  Unicode tables), the substring test \<open>a in b\<close> (\<open>sublist\<close>), \<open>sep.join(xs)\<close>
  (\<open>py_join\<close>) and \<open>str.format\<close> on the templates of the source (\<open>py_format\<close>: literal
  text, the escapes \<open>{{\<close> and \<open>}}\<close>, and automatically numbered \<open>{}\<close> fields; a field
  with a name or a format spec is outside this subset and gives \<open>ValueError\<close>, as an
  unmatched brace does in CPython).
\<close>

definition py_isspace :: "nat \<Rightarrow> bool" where
  "py_isspace c \<longleftrightarrow>
     (9 \<le> c \<and> c \<le> 13) \<or> (28 \<le> c \<and> c \<le> 32) \<or> c = 0x85 \<or> c = 0xA0 \<or> c = 0x1680 \<or>
     (0x2000 \<le> c \<and> c \<le> 0x200A) \<or> c = 0x2028 \<or> c = 0x2029 \<or> c = 0x202F \<or>
     c = 0x205F \<or> c = 0x3000"

function py_split :: "ustr \<Rightarrow> ustr list" where
  "py_split s =
     (case dropWhile py_isspace s of
        [] \<Rightarrow> []
      | c # cs \<Rightarrow> takeWhile (\<lambda>c. \<not> py_isspace c) (c # cs)
                  # py_split (dropWhile (\<lambda>c. \<not> py_isspace c) (c # cs)))"
  by pat_completeness auto
termination
proof (relation "measure length")
  show "wf (measure length)" by simp
next
  fix s c cs
  assume d: "dropWhile py_isspace s = c # cs"
  then have "\<not> py_isspace c"
    by (rule dropWhile_Cons_not)
  then have "length (dropWhile (\<lambda>c. \<not> py_isspace c) (c # cs)) \<le> length cs"
    by (simp add: length_dropWhile_le)
  also have "length cs < length (c # cs)" by simp
  also have "length (c # cs) \<le> length s"
    by (metis d length_dropWhile_le)
  finally show "(dropWhile (\<lambda>c. \<not> py_isspace c) (c # cs), s) \<in> measure length"
    by simp
qed

declare py_split.simps [simp del]

definition py_lower_char :: "nat \<Rightarrow> nat" where
  "py_lower_char c =
     (if (65 \<le> c \<and> c \<le> 90) \<or> (0xC0 \<le> c \<and> c \<le> 0xDE \<and> c \<noteq> 0xD7) then c + 32 else c)"

definition py_lower :: "ustr \<Rightarrow> ustr" where
  "py_lower s = map py_lower_char s"

fun py_join :: "ustr \<Rightarrow> ustr list \<Rightarrow> ustr" where
  "py_join sep [] = []"
| "py_join sep [w] = w"
| "py_join sep (w # ws) = w @ sep @ py_join sep ws"

fun py_format_from :: "ustr \<Rightarrow> ustr list \<Rightarrow> nat \<Rightarrow> py_error + ustr" where
  "py_format_from [] args i = Inr []"
| "py_format_from [c] args i = (if c = 0x7B \<or> c = 0x7D then Inl ValueError else Inr [c])"
| "py_format_from (c # d # cs) args i =
     (if c = 0x7B then
        (if d = 0x7B then map_sum id ((#) 0x7B) (py_format_from cs args i)
         else if d = 0x7D then
           (if i < length args
            then map_sum id ((@) (args ! i)) (py_format_from cs args (Suc i))
            else Inl IndexError)
         else Inl ValueError)
      else if c = 0x7D then
        (if d = 0x7D then map_sum id ((#) 0x7D) (py_format_from cs args i) else Inl ValueError)
      else map_sum id ((#) c) (py_format_from (d # cs) args i))"

definition py_format :: "ustr \<Rightarrow> ustr list \<Rightarrow> py_error + ustr" where
  "py_format t args = py_format_from t args 0"

definition no_braces :: "ustr \<Rightarrow> bool" where
  "no_braces s \<longleftrightarrow> 0x7B \<notin> set s \<and> 0x7D \<notin> set s"

lemmas pystr_eval [py_eval] =
  py_isspace_def py_lower_char_def py_lower_def py_format_def no_braces_def u_def sublist_code

subsection \<open>\<open>str.split()\<close>\<close>

lemma py_split_Nil [simp, py_eval]: "py_split [] = []"
  by (simp add: py_split.simps [of "[]"])

lemma py_split_words:
  "w \<in> set (py_split s) \<Longrightarrow> w \<noteq> [] \<and> (\<forall>c \<in> set w. \<not> py_isspace c)"
proof (induction s rule: py_split.induct)
  case (1 s)
  show ?case
  proof (cases "dropWhile py_isspace s")
    case Nil
    with "1.prems" show ?thesis by (simp add: py_split.simps [of s])
  next
    case (Cons c cs)
    then have "\<not> py_isspace c"
      by (rule dropWhile_Cons_not)
    let ?w = "takeWhile (\<lambda>c. \<not> py_isspace c) (c # cs)"
    have eq: "py_split s = ?w # py_split (dropWhile (\<lambda>c. \<not> py_isspace c) (c # cs))"
      using Cons by (simp add: py_split.simps [of s])
    have hw: "?w \<noteq> [] \<and> (\<forall>c \<in> set ?w. \<not> py_isspace c)"
      using \<open>\<not> py_isspace c\<close> by (auto dest: set_takeWhileD)
    from "1.prems" eq
    have "w = ?w \<or> w \<in> set (py_split (dropWhile (\<lambda>c. \<not> py_isspace c) (c # cs)))"
      by (metis set_ConsD)
    then show ?thesis
    proof
      assume eqw: "w = ?w"
      from hw show ?thesis unfolding eqw .
    next
      assume "w \<in> set (py_split (dropWhile (\<lambda>c. \<not> py_isspace c) (c # cs)))"
      then show ?thesis by (rule "1.IH" [OF Cons])
    qed
  qed
qed

lemma py_split_word:
  assumes "w \<noteq> []" and "\<forall>c \<in> set w. \<not> py_isspace c"
  shows "py_split w = [w]"
proof -
  have d: "dropWhile py_isspace w = w"
    using assms(1,2) by (cases w) auto
  have t: "takeWhile (\<lambda>c. \<not> py_isspace c) w = w" and r: "dropWhile (\<lambda>c. \<not> py_isspace c) w = []"
    using assms(2) by simp_all
  show ?thesis
    unfolding py_split.simps [of w] d
    using assms(1) t r by (cases w) simp_all
qed

lemma py_split_Cons [py_eval]:
  "py_split (c # s) =
     (if py_isspace c then py_split s
      else takeWhile (\<lambda>c. \<not> py_isspace c) (c # s) # py_split (dropWhile (\<lambda>c. \<not> py_isspace c) s))"
  by (simp add: py_split.simps [of "c # s"] py_split.simps [of s])

lemma py_split_space_Cons [simp]: "py_isspace c \<Longrightarrow> py_split (c # s) = py_split s"
  by (simp add: py_split.simps [of "c # s"] py_split.simps [of s])

lemma py_split_word_append:
  assumes "w \<noteq> []" and "\<forall>c \<in> set w. \<not> py_isspace c" and "py_isspace c"
  shows "py_split (w @ c # s) = w # py_split s"
proof -
  have d: "dropWhile py_isspace (w @ c # s) = w @ c # s"
    using assms(1,2) by (cases w) auto
  have t: "takeWhile (\<lambda>c. \<not> py_isspace c) (w @ c # s) = w"
    and r: "dropWhile (\<lambda>c. \<not> py_isspace c) (w @ c # s) = c # s"
    using assms(2,3) by (simp_all add: takeWhile_append2 dropWhile_append2)
  show ?thesis
    unfolding py_split.simps [of "w @ c # s"] d
    using assms(1) t r assms(3) by (cases w) simp_all
qed

text \<open>Splitting a space-joined list of words gives the words back.\<close>

lemma py_split_py_join:
  assumes "\<forall>w \<in> set ws. w \<noteq> [] \<and> (\<forall>c \<in> set w. \<not> py_isspace c)"
  shows "py_split (py_join [0x20] ws) = ws"
  using assms
proof (induction "[0x20::nat]" ws rule: py_join.induct)
  case 1
  then show ?case by simp
next
  case (2 w)
  then show ?case by (simp add: py_split_word)
next
  case (3 w v vs)
  have sp: "py_isspace 0x20" by (simp add: py_isspace_def)
  from "3.prems" have "py_split (py_join [0x20] (v # vs)) = v # vs"
    by (intro "3.hyps") simp
  with "3.prems" sp show ?case
    by (simp add: py_split_word_append)
qed

subsection \<open>\<open>str.lower()\<close>\<close>

lemma py_lower_char_idem [simp]: "py_lower_char (py_lower_char c) = py_lower_char c"
  by (simp add: py_lower_char_def)

lemma py_lower_idem [simp]: "py_lower (py_lower s) = py_lower s"
  by (simp add: py_lower_def)

lemma py_lower_char_not_upper: "\<not> (65 \<le> py_lower_char c \<and> py_lower_char c \<le> 90)"
  by (simp add: py_lower_char_def)

lemma length_py_lower [simp]: "length (py_lower s) = length s"
  by (simp add: py_lower_def)

subsection \<open>\<open>str.format\<close>\<close>

lemma py_format_from_literal:
  "no_braces pre \<Longrightarrow>
   py_format_from (pre @ rest) args i = map_sum id ((@) pre) (py_format_from rest args i)"
proof (induction pre)
  case Nil
  then show ?case by (cases "py_format_from rest args i") simp_all
next
  case (Cons c pre)
  then have "c \<noteq> 0x7B" "c \<noteq> 0x7D" "no_braces pre"
    by (auto simp: no_braces_def)
  show ?case
  proof (cases "pre @ rest")
    case Nil
    with \<open>c \<noteq> 0x7B\<close> \<open>c \<noteq> 0x7D\<close> show ?thesis by simp
  next
    case (Cons d ds)
    with \<open>c \<noteq> 0x7B\<close> \<open>c \<noteq> 0x7D\<close> Cons.IH [OF \<open>no_braces pre\<close>] show ?thesis
      by (cases "py_format_from rest args i") simp_all
  qed
qed

lemma py_format_from_no_braces: "no_braces s \<Longrightarrow> py_format_from s args i = Inr s"
  using py_format_from_literal [of s "[]" args i] by simp

text \<open>A template with one \<open>{}\<close> and no other brace, given one argument, is that argument
  put in place of the field.\<close>

lemma py_format_one_field:
  assumes "no_braces pre" and "no_braces suf"
  shows "py_format (pre @ [0x7B, 0x7D] @ suf) [a] = Inr (pre @ a @ suf)"
proof -
  have "py_format_from ([0x7B, 0x7D] @ suf) [a] 0 = Inr (a @ suf)"
    using assms(2) by (simp add: py_format_from_no_braces)
  then show ?thesis
    using assms(1) by (simp add: py_format_def py_format_from_literal)
qed

end
