(* ===== verification/Models.thy ===== *)
theory Models
  imports PyStr
begin

text \<open>
  The resources \<open>caption_utils.py\<close> loads once at import time (lines 7--11) and every
  request then only reads: the spaCy pipeline \<open>nlp\<close>, the BART summarisation pipeline, the
  BLIP processor and captioning model. They are external models without a contract beyond
  the shape of their input and output, so each is a field of the record \<open>models\<close>, of
  function type, and every theorem holds for every choice of them. The record also holds the
  string-hash order of the process (\<open>str_hash\<close>), which decides how \<open>list(set(...))\<close>
  lists strings.

  A spaCy \<open>Doc\<close> is modelled by what the source reads from it: each token's \<open>text\<close>,
  \<open>pos_\<close> (a Universal POS tag) and \<open>is_stop\<close>, and the text of each noun chunk.
  The keyword arguments of the two model calls are records (\<open>summ_args\<close>,
  \<open>gen_config\<close>) with the constants the source passes.
\<close>

datatype pos_tag =
    ADJ | ADP | ADV | AUX | CCONJ | DET | INTJ | NOUN | NUM | PART | PRON | PROPN | PUNCT
  | SCONJ | SYM | VERB | X | SPACE

record token =
  tok_text :: ustr
  tok_pos :: pos_tag
  tok_is_stop :: bool

record doc =
  doc_tokens :: "token list"
  doc_noun_chunks :: "ustr list"

record summ_args =
  max_length :: nat
  min_length :: nat
  do_sample :: bool

record gen_config =
  num_return_sequences :: nat
  gen_max_length :: nat
  num_beams :: nat
  temperature :: real
  top_k :: nat
  top_p :: real

record ('f, 'i) models =
  nlp :: "ustr \<Rightarrow> doc"
  str_hash :: "ustr \<Rightarrow> nat"
  bart_pipeline :: "ustr \<Rightarrow> summ_args \<Rightarrow> ustr list"
  open_rgb :: "'f \<Rightarrow> 'i option"
  blip_generate :: "gen_config \<Rightarrow> 'i \<Rightarrow> nat list list"
  blip_decode :: "nat list \<Rightarrow> ustr"

end
