(* ===== verification/Keywords.thy ===== *)
theory Keywords
  imports Models
begin

text \<open>
  \<open>extract_keywords\<close> of \<open>src/caption_utils.py\<close> (lines 60--72): the text is lower-cased
  and tagged by the spaCy pipeline; every token tagged \<open>NOUN\<close> or \<open>PROPN\<close> that is not a
  stop word is kept (first loop, \<open>token_keywords\<close>), then every noun chunk of at most three
  words (second loop, \<open>chunk_keywords\<close>); the result is \<open>list(set(keywords))\<close>.
  The lemmas characterise membership, show that stop words are dropped, and that keywords
  are lower case when the tagger returns slices of its input.
\<close>

fun token_keywords :: "token list \<Rightarrow> ustr list" where
  "token_keywords [] = []"
| "token_keywords (t # ts) =
     (if tok_pos t \<in> set [NOUN, PROPN] \<and> \<not> tok_is_stop t
      then tok_text t # token_keywords ts else token_keywords ts)"

fun chunk_keywords :: "ustr list \<Rightarrow> ustr list" where
  "chunk_keywords [] = []"
| "chunk_keywords (c # cs) =
     (if length (py_split c) \<le> 3 then c # chunk_keywords cs else chunk_keywords cs)"

definition extract_keywords :: "(ustr \<Rightarrow> doc) \<Rightarrow> (ustr \<Rightarrow> nat) \<Rightarrow> ustr \<Rightarrow> ustr list" where
  "extract_keywords tagger h text =
     (let d = tagger (py_lower text)
      in py_set_list h (token_keywords (doc_tokens d) @ chunk_keywords (doc_noun_chunks d)))"

definition is_keyword_token :: "token \<Rightarrow> bool" where
  "is_keyword_token t \<longleftrightarrow> tok_pos t \<in> {NOUN, PROPN} \<and> \<not> tok_is_stop t"

definition doc_slices :: "doc \<Rightarrow> ustr \<Rightarrow> bool" where
  "doc_slices d text \<longleftrightarrow>
     (\<forall>t \<in> set (doc_tokens d). sublist (tok_text t) text) \<and>
     (\<forall>c \<in> set (doc_noun_chunks d). sublist c text)"

definition mk_token :: "string \<Rightarrow> pos_tag \<Rightarrow> bool \<Rightarrow> token" where
  "mk_token w p stop = \<lparr>tok_text = u w, tok_pos = p, tok_is_stop = stop\<rparr>"

definition fox_doc :: doc where
  "fox_doc = \<lparr>doc_tokens = [mk_token ''the'' DET True, mk_token ''quick'' ADJ False,
       mk_token ''brown'' ADJ False, mk_token ''fox'' NOUN False, mk_token ''jumps'' VERB False,
       mk_token ''over'' ADP True, mk_token ''the'' DET True, mk_token ''lazy'' ADJ False,
       mk_token ''dog'' NOUN False],
     doc_noun_chunks = [u ''the quick brown fox'', u ''the lazy dog'']\<rparr>"

definition fox_text :: ustr where
  "fox_text = u ''The quick brown fox jumps over the lazy dog''"

definition beach_doc :: doc where
  "beach_doc = \<lparr>doc_tokens = [mk_token ''sunset'' NOUN False, mk_token ''at'' ADP True,
       mk_token ''the'' DET True, mk_token ''beach'' NOUN False],
     doc_noun_chunks = [u ''sunset'', u ''the beach'']\<rparr>"

definition example_models :: "(bool, unit) models" where
  "example_models = \<lparr>nlp = (\<lambda>_. beach_doc), str_hash = (\<lambda>_. 0),
     bart_pipeline = (\<lambda>p _. if p = [] then [] else [u ''sunset at the beach'']),
     open_rgb = (\<lambda>f. if f then Some () else None),
     blip_generate = (\<lambda>_ _. [u ''a dog'', u ''a dog on the sandy beach'', u ''a brown dog'']),
     blip_decode = id\<rparr>"

lemmas keywords_eval [py_eval] = extract_keywords_def is_keyword_token_def doc_slices_def
  mk_token_def fox_doc_def fox_text_def beach_doc_def example_models_def

subsection \<open>The two loops\<close>

lemma set_token_keywords:
  "set (token_keywords ts) = tok_text ` {t \<in> set ts. is_keyword_token t}"
  by (induction ts) (auto simp: is_keyword_token_def)

lemma set_chunk_keywords:
  "set (chunk_keywords cs) = {c \<in> set cs. length (py_split c) \<le> 3}"
  by (induction cs) auto

lemma set_extract_keywords:
  "set (extract_keywords tagger h text) =
     tok_text ` {t \<in> set (doc_tokens (tagger (py_lower text))). is_keyword_token t} \<union>
     {c \<in> set (doc_noun_chunks (tagger (py_lower text))). length (py_split c) \<le> 3}"
  by (simp add: extract_keywords_def Let_def set_token_keywords set_chunk_keywords)

lemma keyword_sublist_lower:
  assumes "sublist kw (py_lower text)" and "c \<in> set kw"
  shows "\<not> (65 \<le> c \<and> c \<le> 90)"
proof -
  from assms have "c \<in> set (py_lower text)" by (auto dest: set_mono_sublist)
  then obtain c' where "c = py_lower_char c'" by (auto simp: py_lower_def)
  then show ?thesis by (simp add: py_lower_char_not_upper)
qed

subsection \<open>Properties of \<open>extract_keywords\<close>\<close>

text \<open>C14: a string is a keyword exactly when the tagged, lower-cased text has a non-stop
  token tagged NOUN or PROPN with that text, or a noun chunk with that text of at most three
  words.\<close>

theorem extract_keywords_members:
  "kw \<in> set (extract_keywords tagger h text) \<longleftrightarrow>
     (\<exists>t \<in> set (doc_tokens (tagger (py_lower text))).
        tok_pos t \<in> {NOUN, PROPN} \<and> \<not> tok_is_stop t \<and> tok_text t = kw) \<or>
     (kw \<in> set (doc_noun_chunks (tagger (py_lower text))) \<and> length (py_split kw) \<le> 3)"
  by (auto simp: set_extract_keywords is_keyword_token_def)

text \<open>C15: a word that the tagger marks as a stop word wherever it occurs as a token, and
  that is not a noun chunk, is never a keyword.\<close>

theorem extract_keywords_excludes_stop_words:
  assumes "\<forall>t \<in> set (doc_tokens (tagger (py_lower text))). tok_text t = w \<longrightarrow> tok_is_stop t"
    and "w \<notin> set (doc_noun_chunks (tagger (py_lower text)))"
  shows "w \<notin> set (extract_keywords tagger h text)"
  using assms by (auto simp: set_extract_keywords is_keyword_token_def)

text \<open>C16: when the tagger's tokens and chunks are slices of the text it is given, no
  keyword contains an ASCII capital letter.\<close>

theorem extract_keywords_lowercase:
  assumes "doc_slices (tagger (py_lower text)) (py_lower text)"
  shows "\<forall>kw \<in> set (extract_keywords tagger h text). \<forall>c \<in> set kw. \<not> (65 \<le> c \<and> c \<le> 90)"
proof (intro ballI)
  fix kw c
  assume kw: "kw \<in> set (extract_keywords tagger h text)" and c: "c \<in> set kw"
  from kw assms have "sublist kw (py_lower text)"
    by (auto simp: set_extract_keywords doc_slices_def)
  then show "\<not> (65 \<le> c \<and> c \<le> 90)"
    using c by (rule keyword_sublist_lower)
qed

subsection \<open>Witnesses\<close>

text \<open>The example of the specification, with the tagging spaCy gives the sentence: \<open>fox\<close>
  and \<open>dog\<close> are keywords, \<open>the\<close> and \<open>over\<close> are not.\<close>

theorem extract_keywords_excludes_stop_words_witness:
  "u ''fox'' \<in> set (extract_keywords (\<lambda>_. fox_doc) (\<lambda>_. 0) fox_text) \<and>
   u ''dog'' \<in> set (extract_keywords (\<lambda>_. fox_doc) (\<lambda>_. 0) fox_text) \<and>
   u ''the'' \<notin> set (extract_keywords (\<lambda>_. fox_doc) (\<lambda>_. 0) fox_text) \<and>
   u ''over'' \<notin> set (extract_keywords (\<lambda>_. fox_doc) (\<lambda>_. 0) fox_text)"
proof -
  have "u ''the'' \<notin> set (extract_keywords (\<lambda>_. fox_doc) (\<lambda>_. 0) fox_text)"
    by (rule extract_keywords_excludes_stop_words) (simp_all add: py_eval)
  moreover have "u ''over'' \<notin> set (extract_keywords (\<lambda>_. fox_doc) (\<lambda>_. 0) fox_text)"
    by (rule extract_keywords_excludes_stop_words) (simp_all add: py_eval)
  moreover have "u ''fox'' \<in> set (extract_keywords (\<lambda>_. fox_doc) (\<lambda>_. 0) fox_text) \<and>
      u ''dog'' \<in> set (extract_keywords (\<lambda>_. fox_doc) (\<lambda>_. 0) fox_text)"
    by (simp add: set_extract_keywords py_eval)
  ultimately show ?thesis by blast
qed

theorem extract_keywords_lowercase_witness:
  "list_all (\<lambda>kw. list_all (\<lambda>c. \<not> (65 \<le> c \<and> c \<le> 90)) kw)
     (extract_keywords (\<lambda>_. fox_doc) (\<lambda>_. 0) fox_text)"
proof -
  have h: "doc_slices fox_doc (py_lower fox_text)"
    by (simp add: py_eval)
  then show ?thesis
    using extract_keywords_lowercase [of "\<lambda>_. fox_doc" fox_text "\<lambda>_. 0"]
    by (simp add: list_all_iff)
qed

end
