(* ===== verification/PyRandom.thy ===== *)
theory PyRandom
  imports Prelude
begin

text \<open>
  The functions of CPython's \<open>random\<close> module that the source calls (\<open>random.choice\<close>
  and \<open>random.sample\<close>), over the stream of 32-bit outputs of the module's Mersenne Twister
  (\<open>mt_stream\<close>):
  \<^item> \<open>getrandbits k\<close> (\<open>_random_Random_getrandbits_impl\<close>): for \<open>k \<le> 32\<close> the top
    \<open>k\<close> bits of one output word; for larger \<open>k\<close> one word per 32 bits, least significant
    word first, the last one shifted;
  \<^item> \<open>randbelow n\<close> (\<open>Random._randbelow_with_getrandbits\<close>, Python 3.12): draw
    \<open>n.bit_length()\<close> bits until the value is below \<open>n\<close>. This loop need not end, so it
    is a \<^theory_text>\<open>partial_function (option)\<close>; \<open>randbelow_terminates\<close> proves that it
    returns when the stream has infinitely many words with a clear top bit;
  \<^item> \<open>choice\<close> and \<open>sample\<close> (\<open>Random.choice\<close>, \<open>Random.sample\<close>), with both
    branches of \<open>sample\<close>: the pool (partial Fisher-Yates) for small populations and the
    rejection set otherwise (\<open>setsize\<close> is 21 plus, for \<open>k > 5\<close>,
    \<open>4 ^ ceil(log(3k, 4))\<close>, computed here exactly).
\<close>

fun getrandbits :: "nat \<Rightarrow> mt_stream \<Rightarrow> nat \<times> mt_stream" where
  "getrandbits k s =
     (if k = 0 then (0, s)
      else if k \<le> 32 then (unat (drop_bit (32 - k) (shd s)), stl s)
      else (let (hi, s') = getrandbits (k - 32) (stl s) in (unat (shd s) + 2 ^ 32 * hi, s')))"

declare getrandbits.simps [simp del]

fun bit_length :: "nat \<Rightarrow> nat" where
  "bit_length n = (if n = 0 then 0 else Suc (bit_length (n div 2)))"

declare bit_length.simps [simp del]

partial_function (option) randbelow_loop :: "nat \<Rightarrow> nat \<Rightarrow> nat rnd" where
  "randbelow_loop n k s =
     (case getrandbits k s of (r, s') \<Rightarrow> if n \<le> r then randbelow_loop n k s' else Some (Inr r, s'))"

definition randbelow :: "nat \<Rightarrow> nat rnd" where
  "randbelow n = randbelow_loop n (bit_length n)"

definition choice :: "'a list \<Rightarrow> 'a rnd" where
  "choice seq =
     (if length seq = 0 then rraise IndexError
      else rbind (randbelow (length seq)) (\<lambda>i. rreturn (seq ! i)))"

fun ceil_log4 :: "nat \<Rightarrow> nat" where
  "ceil_log4 x = (if x \<le> 1 then 0 else Suc (ceil_log4 ((x + 3) div 4)))"

declare ceil_log4.simps [simp del]

definition sample_setsize :: "nat \<Rightarrow> nat" where
  "sample_setsize k = 21 + (if 5 < k then 4 ^ ceil_log4 (k * 3) else 0)"

fun pool_select :: "nat \<Rightarrow> 'a list \<Rightarrow> nat \<Rightarrow> 'a list rnd" where
  "pool_select 0 pool m = rreturn []"
| "pool_select (Suc c) pool m =
     rbind (randbelow m) (\<lambda>j.
       rbind (pool_select c (pool[j := pool ! (m - 1)]) (m - 1)) (\<lambda>rest.
         rreturn (pool ! j # rest)))"

partial_function (option) pick_fresh :: "nat \<Rightarrow> nat list \<Rightarrow> nat rnd" where
  "pick_fresh n selected s =
     (case randbelow n s of
        None \<Rightarrow> None
      | Some (Inl e, s') \<Rightarrow> Some (Inl e, s')
      | Some (Inr j, s') \<Rightarrow> if j \<in> set selected then pick_fresh n selected s' else Some (Inr j, s'))"

fun set_select :: "nat \<Rightarrow> 'a list \<Rightarrow> nat \<Rightarrow> nat list \<Rightarrow> 'a list rnd" where
  "set_select 0 pop n selected = rreturn []"
| "set_select (Suc c) pop n selected =
     rbind (pick_fresh n selected) (\<lambda>j.
       rbind (set_select c pop n (j # selected)) (\<lambda>rest.
         rreturn (pop ! j # rest)))"

definition sample :: "'a list \<Rightarrow> nat \<Rightarrow> 'a list rnd" where
  "sample population k =
     (let n = length population in
      if \<not> k \<le> n then rraise ValueError
      else if n \<le> sample_setsize k then pool_select k population n
      else set_select k population n [])"

definition msb_clear_often :: "mt_stream \<Rightarrow> bool" where
  "msb_clear_often s \<longleftrightarrow> (\<forall>i. \<exists>j \<ge> i. \<not> bit (s !! j) 31)"

lemmas random_eval [py_eval] =
  getrandbits.simps bit_length.simps randbelow_def randbelow_loop.simps choice_def
  ceil_log4.simps sample_setsize_def sample_def pick_fresh.simps

lemma pool_select_numeral [py_eval]:
  "pool_select (numeral n) pool m =
     rbind (randbelow m) (\<lambda>j.
       rbind (pool_select (pred_numeral n) (pool[j := pool ! (m - 1)]) (m - 1)) (\<lambda>rest.
         rreturn (pool ! j # rest)))"
  by (simp add: numeral_eq_Suc)

lemma pool_select_one [py_eval]:
  "pool_select 1 pool m = rbind (randbelow m) (\<lambda>j. rreturn [pool ! j])"
  by (simp add: One_nat_def)

lemma set_select_numeral [py_eval]:
  "set_select (numeral n) pop m sel =
     rbind (pick_fresh m sel) (\<lambda>j.
       rbind (set_select (pred_numeral n) pop m (j # sel)) (\<lambda>rest.
         rreturn (pop ! j # rest)))"
  by (simp add: numeral_eq_Suc)

lemma set_select_one [py_eval]:
  "set_select 1 pop m sel = rbind (pick_fresh m sel) (\<lambda>j. rreturn [pop ! j])"
  by (simp add: One_nat_def)

subsection \<open>Bit lengths and the top bit of a word\<close>

lemma bit_length_bounds:
  "0 < n \<Longrightarrow> 2 ^ (bit_length n - 1) \<le> n \<and> n < 2 ^ bit_length n"
proof (induction n rule: bit_length.induct)
  case (1 n)
  show ?case
  proof (cases "n = 1")
    case True
    then show ?thesis by (simp add: bit_length.simps)
  next
    case False
    with "1.prems" have "0 < n div 2" by simp
    with "1.IH" "1.prems" have ih: "2 ^ (bit_length (n div 2) - 1) \<le> n div 2 \<and> n div 2 < 2 ^ bit_length (n div 2)"
      by simp
    have b: "bit_length n = Suc (bit_length (n div 2))"
      using "1.prems" by (simp add: bit_length.simps [of n])
    have pos: "0 < bit_length (n div 2)"
      using \<open>0 < n div 2\<close> by (simp add: bit_length.simps [of "n div 2"])
    have "(2::nat) ^ bit_length (n div 2) = 2 * 2 ^ (bit_length (n div 2) - 1)"
      using pos by (metis Suc_diff_1 power_Suc)
    also have "\<dots> \<le> 2 * (n div 2)"
      using ih by simp
    also have "\<dots> \<le> n" by simp
    finally have "2 ^ bit_length (n div 2) \<le> n" .
    moreover from ih have "n < 2 ^ Suc (bit_length (n div 2))"
      by (simp only: power_Suc) arith
    ultimately show ?thesis using b by simp
  qed
qed

lemma bit_length_le: "n < 2 ^ m \<Longrightarrow> bit_length n \<le> m"
proof (induction n arbitrary: m rule: bit_length.induct)
  case (1 n)
  show ?case
  proof (cases "n = 0")
    case True
    then show ?thesis by (simp add: bit_length.simps)
  next
    case False
    then obtain m' where m: "m = Suc m'"
      using "1.prems" by (cases m) auto
    with "1.prems" have "n div 2 < 2 ^ m'" by simp
    with False "1.IH" have "bit_length (n div 2) \<le> m'" by simp
    with False m show ?thesis by (simp add: bit_length.simps [of n])
  qed
qed

lemma nat_below_of_bit_clear:
  fixes x :: nat
  assumes "x < 2 ^ Suc n" and "\<not> bit x n"
  shows "x < 2 ^ n"
proof -
  have "x div 2 ^ n < 2"
    using assms(1) by (simp add: less_mult_imp_div_less mult.commute)
  moreover have "even (x div 2 ^ n)"
    using assms(2) by (simp add: bit_iff_odd)
  ultimately have "x div 2 ^ n = 0" by (auto simp: numeral_2_eq_2 less_Suc_eq)
  then show ?thesis by (simp add: div_eq_0_iff)
qed

lemma draw_msb_clear:
  fixes w :: "32 word"
  assumes "\<not> bit w 31" and "0 < k" and "k \<le> 32"
  shows "unat (drop_bit (32 - k) w) < 2 ^ (k - 1)"
proof -
  have "unat w < 2 ^ Suc 31"
    using unsigned_less [of w] by simp
  moreover have "\<not> bit (unat w) 31"
    using assms(1) by (simp add: bit_unsigned_iff)
  ultimately have lt: "unat w < 2 ^ 31"
    by (rule nat_below_of_bit_clear)
  have "(2::nat) ^ 31 = 2 ^ (k - 1) * 2 ^ (32 - k)"
    using assms(2,3) by (simp flip: power_add)
  with lt have "unat w div 2 ^ (32 - k) < 2 ^ (k - 1)"
    by (simp add: less_mult_imp_div_less)
  moreover have "unat (drop_bit (32 - k) w) = unat w div 2 ^ (32 - k)"
    by (rule trans [OF unat_drop_bit_eq drop_bit_eq_div])
  ultimately show ?thesis by (simp only:)
qed

lemma getrandbits_word:
  "0 < k \<Longrightarrow> k \<le> 32 \<Longrightarrow> getrandbits k s = (unat (drop_bit (32 - k) (shd s)), stl s)"
  by (simp add: getrandbits.simps [of k s])

lemma randbelow_loop_below:
  assumes "randbelow_loop n k s = Some x"
  shows "\<exists>j. fst x = Inr j \<and> j < n"
proof (rule randbelow_loop.raw_induct [where P = "\<lambda>n k s x. \<exists>j. fst x = Inr j \<and> j < n", OF _ assms])
  fix f :: "nat \<Rightarrow> nat \<Rightarrow> nat rnd" and n k s x
  assume IH: "\<And>n k s x. f n k s = Some x \<Longrightarrow> \<exists>j. fst x = Inr j \<and> j < n"
    and eq: "(case getrandbits k s of (r, s') \<Rightarrow> if n \<le> r then f n k s' else Some (Inr r, s')) = Some x"
  obtain v t where g: "getrandbits k s = (v, t)" by fastforce
  show "\<exists>j. fst x = Inr j \<and> j < n"
  proof (cases "n \<le> v")
    case True
    with eq g have "f n k t = Some x" by simp
    then show ?thesis by (rule IH)
  next
    case False
    with eq g show ?thesis by auto
  qed
qed

lemma randbelow_below:
  "randbelow n s = Some (r, s') \<Longrightarrow> \<exists>j. r = Inr j \<and> j < n"
  unfolding randbelow_def by (drule randbelow_loop_below) simp

lemma randbelow_loop_returns:
  assumes k: "0 < k" "k \<le> 32" and n: "2 ^ (k - 1) \<le> n" and clear: "\<not> bit (s !! i) 31"
  shows "\<exists>j m. randbelow_loop n k s = Some (Inr j, sdrop m s) \<and> j < n"
  using clear
proof (induction i arbitrary: s)
  case 0
  have "unat (drop_bit (32 - k) (shd s)) < n"
    using draw_msb_clear [of "shd s" k] 0 k n by simp
  then have "randbelow_loop n k s = Some (Inr (unat (drop_bit (32 - k) (shd s))), sdrop 1 s)"
    using k by (simp add: randbelow_loop.simps [of n k s] getrandbits_word)
  with \<open>unat (drop_bit (32 - k) (shd s)) < n\<close> show ?case by blast
next
  case (Suc i)
  let ?v = "unat (drop_bit (32 - k) (shd s))"
  show ?case
  proof (cases "n \<le> ?v")
    case True
    from Suc.prems have "\<not> bit (stl s !! i) 31" by simp
    then obtain j m where "randbelow_loop n k (stl s) = Some (Inr j, sdrop m (stl s))" and "j < n"
      using Suc.IH by blast
    moreover have "randbelow_loop n k s = randbelow_loop n k (stl s)"
      using True k by (simp add: randbelow_loop.simps [of n k s] getrandbits_word)
    ultimately have "randbelow_loop n k s = Some (Inr j, sdrop (Suc m) s)" by simp
    with \<open>j < n\<close> show ?thesis by blast
  next
    case False
    then have "randbelow_loop n k s = Some (Inr ?v, sdrop 1 s)"
      using k by (simp add: randbelow_loop.simps [of n k s] getrandbits_word)
    with False show ?thesis by (metis not_le)
  qed
qed

lemma msb_clear_often_sdrop: "msb_clear_often s \<Longrightarrow> msb_clear_often (sdrop m s)"
  unfolding msb_clear_often_def
  by (metis add.commute le_add_diff_inverse2 nat_add_left_cancel_le sdrop_snth le_add2 le_trans)

lemma msb_clear_often_sconst0: "msb_clear_often (sconst 0)"
  by (auto simp: msb_clear_often_def)

lemma randbelow_terminates:
  assumes "0 < n" and "n < 2 ^ 32" and "msb_clear_often s"
  shows "\<exists>j s'. randbelow n s = Some (Inr j, s') \<and> j < n \<and> msb_clear_often s'"
proof -
  obtain i where "\<not> bit (s !! i) 31"
    using assms(3) by (auto simp: msb_clear_often_def)
  moreover have "0 < bit_length n" and "2 ^ (bit_length n - 1) \<le> n"
    using bit_length_bounds [OF assms(1)] by (auto intro: Nat.gr0I simp: bit_length.simps [of n] assms(1))
  moreover have "bit_length n \<le> 32"
    using assms(2) by (rule bit_length_le)
  ultimately obtain j m where "randbelow n s = Some (Inr j, sdrop m s)" and "j < n"
    using randbelow_loop_returns unfolding randbelow_def by blast
  with assms(3) show ?thesis by (blast intro: msb_clear_often_sdrop)
qed

lemma choice_empty: "choice [] s = Some (Inl IndexError, s)"
  by (simp add: choice_def rraise_def)

lemma choice_in_set: "choice seq s = Some (Inr x, s') \<Longrightarrow> x \<in> set seq"
  by (auto simp: choice_def rraise_def rreturn_def rbind_Some_Inr dest!: randbelow_below
      split: if_splits)

lemma choice_terminates:
  assumes "seq \<noteq> []" and "length seq < 2 ^ 32" and "msb_clear_often s"
  shows "\<exists>i s'. choice seq s = Some (Inr (seq ! i), s') \<and> i < length seq \<and> msb_clear_often s'"
proof -
  obtain i s' where "randbelow (length seq) s = Some (Inr i, s')" "i < length seq" "msb_clear_often s'"
    using randbelow_terminates [of "length seq" s] assms by auto
  then show ?thesis
    using assms(1) by (auto simp: choice_def rbind_apply rreturn_def)
qed

lemma mset_take_pool_update:
  assumes "j < m" and "m \<le> length pool"
  shows "add_mset (pool ! j) (mset (take (m - 1) (pool[j := pool ! (m - 1)]))) = mset (take m pool)"
proof -
  obtain m' where m: "m = Suc m'" using assms(1) by (cases m) auto
  have take_m: "take m pool = take m' pool @ [pool ! m']"
    using assms(2) m by (simp add: take_Suc_conv_app_nth)
  show ?thesis
  proof (cases "j = m'")
    case True
    then show ?thesis using take_m m by simp
  next
    case False
    with assms(1) m have "j < m'" by simp
    then have "j < length (take m' pool)" using assms(2) m by simp
    moreover have "take m' pool ! j = pool ! j" using \<open>j < m'\<close> by simp
    ultimately have "mset ((take m' pool)[j := pool ! m']) =
        add_mset (pool ! m') (mset (take m' pool) - {#pool ! j#})"
      by (simp add: mset_update)
    moreover have "pool ! j \<in># mset (take m' pool)"
      using \<open>j < length (take m' pool)\<close> \<open>take m' pool ! j = pool ! j\<close>
      by (metis in_set_conv_nth set_mset_mset)
    ultimately show ?thesis
      using take_m m by (simp add: take_update_swap)
  qed
qed

lemma pool_select_mset:
  assumes "pool_select c pool m s = Some (Inr rs, s')" and "m \<le> length pool"
  shows "length rs = c \<and> mset rs \<subseteq># mset (take m pool)"
  using assms
proof (induction c arbitrary: pool m s rs)
  case 0
  then show ?case by (simp add: rreturn_def)
next
  case (Suc c)
  from Suc.prems(1) obtain j s1 rest where
      rb: "randbelow m s = Some (Inr j, s1)" and
      rec: "pool_select c (pool[j := pool ! (m - 1)]) (m - 1) s1 = Some (Inr rest, s')" and
      rs: "rs = pool ! j # rest"
    by (auto simp: rbind_Some_Inr rreturn_def)
  from rb have "j < m" by (auto dest: randbelow_below)
  have "m - 1 \<le> length (pool[j := pool ! (m - 1)])" using Suc.prems(2) by simp
  with rec have ih: "length rest = c \<and> mset rest \<subseteq># mset (take (m - 1) (pool[j := pool ! (m - 1)]))"
    by (rule Suc.IH)
  then have "add_mset (pool ! j) (mset rest) \<subseteq># add_mset (pool ! j) (mset (take (m - 1) (pool[j := pool ! (m - 1)])))"
    by simp
  also have "\<dots> = mset (take m pool)"
    using \<open>j < m\<close> Suc.prems(2) by (rule mset_take_pool_update)
  finally show ?case using ih rs by simp
qed

lemma pool_select_terminates:
  assumes "c \<le> m" and "m < 2 ^ 32" and "msb_clear_often s"
  shows "\<exists>rs s'. pool_select c pool m s = Some (Inr rs, s') \<and> msb_clear_often s'"
  using assms
proof (induction c arbitrary: pool m s)
  case 0
  then show ?case by (simp add: rreturn_def)
next
  case (Suc c)
  then obtain j s1 where rb: "randbelow m s = Some (Inr j, s1)" and "msb_clear_often s1"
    using randbelow_terminates [of m s] by auto
  moreover have "c \<le> m - 1" and "m - 1 < 2 ^ 32" using Suc.prems by auto
  ultimately obtain rest s' where
      "pool_select c (pool[j := pool ! (m - 1)]) (m - 1) s1 = Some (Inr rest, s')" and
      "msb_clear_often s'"
    using Suc.IH by blast
  with rb show ?case by (auto simp: rbind_apply rreturn_def)
qed

lemma pick_fresh_fresh:
  assumes "pick_fresh n sel s = Some x"
  shows "\<exists>j. fst x = Inr j \<and> j < n \<and> j \<notin> set sel"
proof (rule pick_fresh.raw_induct [where P = "\<lambda>n sel s x. \<exists>j. fst x = Inr j \<and> j < n \<and> j \<notin> set sel", OF _ assms])
  fix f :: "nat \<Rightarrow> nat list \<Rightarrow> nat rnd" and n sel s x
  assume IH: "\<And>n sel s x. f n sel s = Some x \<Longrightarrow> \<exists>j. fst x = Inr j \<and> j < n \<and> j \<notin> set sel"
    and eq: "(case randbelow n s of None \<Rightarrow> None
       | Some (Inl e, s') \<Rightarrow> Some (Inl e, s')
       | Some (Inr j, s') \<Rightarrow> if j \<in> set sel then f n sel s' else Some (Inr j, s')) = Some x"
  then obtain r t where rb: "randbelow n s = Some (r, t)"
    by (cases "randbelow n s") auto
  then obtain j where r: "r = Inr j" and "j < n" by (auto dest: randbelow_below)
  show "\<exists>j. fst x = Inr j \<and> j < n \<and> j \<notin> set sel"
  proof (cases "j \<in> set sel")
    case True
    with eq rb r have "f n sel t = Some x" by simp
    then show ?thesis by (rule IH)
  next
    case False
    with eq rb r \<open>j < n\<close> show ?thesis by auto
  qed
qed

lemma set_select_indices:
  assumes "set_select c pop n sel s = Some (Inr rs, s')"
  shows "\<exists>idx. rs = map ((!) pop) idx \<and> length idx = c \<and> distinct idx \<and>
           set idx \<inter> set sel = {} \<and> (\<forall>i \<in> set idx. i < n)"
  using assms
proof (induction c arbitrary: sel s rs)
  case 0
  then show ?case by (simp add: rreturn_def)
next
  case (Suc c)
  from Suc.prems obtain j s1 rest where
      pf: "pick_fresh n sel s = Some (Inr j, s1)" and
      rec: "set_select c pop n (j # sel) s1 = Some (Inr rest, s')" and
      rs: "rs = pop ! j # rest"
    by (auto simp: rbind_Some_Inr rreturn_def)
  from pf have "j < n" and "j \<notin> set sel" by (auto dest: pick_fresh_fresh)
  from Suc.IH [OF rec] obtain idx where
      "rest = map ((!) pop) idx" "length idx = c" "distinct idx"
      "set idx \<inter> set (j # sel) = {}" "\<forall>i \<in> set idx. i < n"
    by blast
  with rs \<open>j < n\<close> \<open>j \<notin> set sel\<close> show ?case
    by (intro exI [of _ "j # idx"]) auto
qed

lemma mset_map_nth_distinct:
  assumes "distinct idx" and "\<forall>i \<in> set idx. i < length xs"
  shows "mset (map ((!) xs) idx) \<subseteq># mset xs"
proof -
  have "mset idx = mset_set (set idx)"
    using assms(1) by (simp add: mset_set_set)
  also have "\<dots> \<subseteq># mset_set (set [0..<length xs])"
    using assms(2) by (intro subset_imp_msubset_mset_set) auto
  also have "\<dots> = mset [0..<length xs]"
    by (rule mset_set_set) simp
  finally have "image_mset ((!) xs) (mset idx) \<subseteq># image_mset ((!) xs) (mset [0..<length xs])"
    by (rule image_mset_subseteq_mono)
  moreover have "image_mset ((!) xs) (mset [0..<length xs]) = mset xs"
    by (metis map_nth mset_map)
  ultimately show ?thesis by (metis mset_map)
qed

lemma sample_too_large: "length pop < k \<Longrightarrow> sample pop k s = Some (Inl ValueError, s)"
  by (simp add: sample_def rraise_def)

lemma sample_result:
  assumes "sample pop k s = Some (Inr rs, s')"
  shows "length rs = k \<and> mset rs \<subseteq># mset pop"
proof (cases "length pop \<le> sample_setsize k")
  case True
  with assms have "k \<le> length pop" and "pool_select k pop (length pop) s = Some (Inr rs, s')"
    by (auto simp: sample_def Let_def rraise_def split: if_splits)
  then show ?thesis
    by (metis order_refl pool_select_mset take_all)
next
  case False
  with assms have "set_select k pop (length pop) [] s = Some (Inr rs, s')"
    by (auto simp: sample_def Let_def rraise_def split: if_splits)
  then obtain idx where "rs = map ((!) pop) idx" "length idx = k" "distinct idx"
      "\<forall>i \<in> set idx. i < length pop"
    by (blast dest: set_select_indices)
  then show ?thesis using mset_map_nth_distinct [of idx pop] by simp
qed

lemma sample_distinct:
  "sample pop k s = Some (Inr rs, s') \<Longrightarrow> distinct pop \<Longrightarrow> distinct rs"
  by (blast dest: sample_result intro: distinct_subset_mset)

lemma sample_small_terminates:
  assumes "k \<le> length pop" and "length pop \<le> sample_setsize k" and "k \<le> 5"
    and "msb_clear_often s"
  shows "\<exists>rs s'. sample pop k s = Some (Inr rs, s') \<and> msb_clear_often s'"
proof -
  have "length pop < 2 ^ 32"
    using assms(2,3) by (simp add: sample_setsize_def)
  then show ?thesis
    using pool_select_terminates [OF assms(1) _ assms(4)] assms(1,2)
    by (simp add: sample_def)
qed
end
