(* ===== verification/Captions.thy ===== *)
theory Captions
  imports Keywords PyRandom
begin

text \<open>
  The two caption generators of \<open>src/caption_utils.py\<close>.
  \<^item> \<open>CAPTION_TEMPLATES\<close> (lines 14--25) as code points; the emoji are written by their
    code points (U+2728, U+1F31F, U+1F496, U+1F343, U+270C U+FE0F, U+1F525).
  \<^item> \<open>caption_from_text\<close> (lines 28--38): the BART summary (\<open>[0]['summary_text']\<close>,
    an \<open>IndexError\<close> when the pipeline returns nothing), its keywords, the first of them or
    \<open>"moment"\<close> (\<open>main_keyword\<close>), a template drawn by \<open>random.choice\<close> and
    \<open>str.format\<close>.
  \<^item> \<open>caption_from_image\<close> (lines 41--57): \<open>Image.open(f).convert("RGB")\<close> (\<open>open_rgb\<close>;
    a file PIL cannot read raises \<open>UnidentifiedImageError\<close>), BLIP generation with the
    keyword arguments of lines 46--54 (\<open>blip_config\<close>), decoding of each sequence, and
    \<open>max(captions, key=lambda x: len(x.split()))\<close>.
  \<open>template_parts\<close> splits each template at its field; it is the specification the
  lemma \<open>templates_split\<close> checks the templates against.
\<close>

definition CAPTION_TEMPLATES :: "ustr list" where
  "CAPTION_TEMPLATES = [
     u ''Living for moments like this {} '' @ [0x2728],
     u ''Can we talk about how amazing this {} is?'',
     u ''{} but make it aesthetic '' @ [0x1F31F],
     u ''This {} has my whole heart '' @ [0x1F496],
     u ''Found my happy place with this {}'',
     u ''{} and chill '' @ [0x1F343],
     u ''This {} deserves all the hype!'',
     u ''Sending you good vibes with this {} '' @ [0x270C, 0xFE0F],
     u ''Who else loves {} as much as I do?'',
     u ''This {} hits different '' @ [0x1F525]]"

definition bart_args :: summ_args where
  "bart_args = \<lparr>max_length = 50, min_length = 20, do_sample = True\<rparr>"

definition main_keyword :: "ustr list \<Rightarrow> ustr" where
  "main_keyword keywords = (case keywords of [] \<Rightarrow> u ''moment'' | k # _ \<Rightarrow> k)"

definition caption_from_text :: "('f, 'i) models \<Rightarrow> ustr \<Rightarrow> ustr rnd" where
  "caption_from_text M prompt =
     (case bart_pipeline M prompt bart_args of
        [] \<Rightarrow> rraise IndexError
      | summary # _ \<Rightarrow>
          (let keywords = extract_keywords (nlp M) (str_hash M) summary;
               kw = main_keyword keywords
           in rbind (choice CAPTION_TEMPLATES) (\<lambda>template. rlift (py_format template [kw]))))"

definition blip_config :: gen_config where
  "blip_config = \<lparr>num_return_sequences = 3, gen_max_length = 30, num_beams = 5,
                  temperature = 7 / 10, top_k = 50, top_p = 9 / 10\<rparr>"

definition word_count :: "ustr \<Rightarrow> nat" where
  "word_count x = length (py_split x)"

definition caption_from_image :: "('f, 'i) models \<Rightarrow> 'f \<Rightarrow> py_error + ustr" where
  "caption_from_image M image_file =
     (case open_rgb M image_file of
        None \<Rightarrow> Inl UnidentifiedImageError
      | Some img \<Rightarrow>
          (let outputs = blip_generate M blip_config img;
               captions = map (blip_decode M) outputs
           in py_max_key word_count captions))"

definition template_parts :: "(ustr \<times> ustr) list" where
  "template_parts = [
     (u ''Living for moments like this '', u '' '' @ [0x2728]),
     (u ''Can we talk about how amazing this '', u '' is?''),
     ([], u '' but make it aesthetic '' @ [0x1F31F]),
     (u ''This '', u '' has my whole heart '' @ [0x1F496]),
     (u ''Found my happy place with this '', []),
     ([], u '' and chill '' @ [0x1F343]),
     (u ''This '', u '' deserves all the hype!''),
     (u ''Sending you good vibes with this '', u '' '' @ [0x270C, 0xFE0F]),
     (u ''Who else loves '', u '' as much as I do?''),
     (u ''This '', u '' hits different '' @ [0x1F525])]"

lemmas captions_eval [py_eval] =
  CAPTION_TEMPLATES_def bart_args_def main_keyword_def caption_from_text_def blip_config_def
  word_count_def caption_from_image_def template_parts_def py_max_key_def

subsection \<open>The templates\<close>

lemma templates_split:
  "CAPTION_TEMPLATES = map (\<lambda>(p, s). p @ [0x7B, 0x7D] @ s) template_parts"
  by (simp add: CAPTION_TEMPLATES_def template_parts_def u_def)

lemma template_parts_no_braces:
  "\<forall>(p, s) \<in> set template_parts. no_braces p \<and> no_braces s"
  by (simp add: template_parts_def no_braces_def u_def)

lemma length_CAPTION_TEMPLATES: "length CAPTION_TEMPLATES = 10"
  by (simp add: CAPTION_TEMPLATES_def)

lemma format_template:
  assumes "t \<in> set CAPTION_TEMPLATES"
  shows "\<exists>p s. (p, s) \<in> set template_parts \<and> py_format t [kw] = Inr (p @ kw @ s)"
proof -
  from assms obtain p s where ps: "(p, s) \<in> set template_parts" and t: "t = p @ [0x7B, 0x7D] @ s"
    by (auto simp: templates_split)
  with template_parts_no_braces have "no_braces p" "no_braces s" by auto
  with t ps show ?thesis by (blast intro: py_format_one_field)
qed

lemma template_parts_nonempty: "\<forall>(p, s) \<in> set template_parts. p @ s \<noteq> []"
  by (simp add: template_parts_def u_def)

lemma template_parts_lengths:
  "\<forall>(p, sf) \<in> set template_parts. 12 \<le> length (p @ sf) \<and> length (p @ sf) \<le> 39"
  by (simp add: template_parts_def u_def)

lemma caption_from_text_returns:
  assumes "bart_pipeline M prompt bart_args = summary # rest" and "msb_clear_often s"
  shows "\<exists>p sf s'. (p, sf) \<in> set template_parts \<and>
           caption_from_text M prompt s =
             Some (Inr (p @ main_keyword (extract_keywords (nlp M) (str_hash M) summary) @ sf), s') \<and>
           msb_clear_often s'"
proof -
  let ?kw = "main_keyword (extract_keywords (nlp M) (str_hash M) summary)"
  have "CAPTION_TEMPLATES \<noteq> []" and "length CAPTION_TEMPLATES < 2 ^ 32"
    by (simp_all add: length_CAPTION_TEMPLATES) (simp add: CAPTION_TEMPLATES_def)
  then obtain i s' where ch: "choice CAPTION_TEMPLATES s = Some (Inr (CAPTION_TEMPLATES ! i), s')"
      and "i < length CAPTION_TEMPLATES" and "msb_clear_often s'"
    using choice_terminates assms(2) by blast
  then have "CAPTION_TEMPLATES ! i \<in> set CAPTION_TEMPLATES" by simp
  then obtain p sf where ps: "(p, sf) \<in> set template_parts"
      and fmt: "py_format (CAPTION_TEMPLATES ! i) [?kw] = Inr (p @ ?kw @ sf)"
    using format_template by blast
  have "caption_from_text M prompt s = Some (Inr (p @ ?kw @ sf), s')"
    using assms(1) ch fmt by (simp add: caption_from_text_def rbind_apply rlift_def)
  with ps \<open>msb_clear_often s'\<close> show ?thesis by blast
qed

lemma caption_from_text_Inr:
  assumes "caption_from_text M prompt s = Some (Inr c, s')"
  obtains summary rest p sf where "bart_pipeline M prompt bart_args = summary # rest"
    and "(p, sf) \<in> set template_parts"
    and "c = p @ main_keyword (extract_keywords (nlp M) (str_hash M) summary) @ sf"
proof (cases "bart_pipeline M prompt bart_args")
  case Nil
  with assms show ?thesis by (simp add: caption_from_text_def rraise_def)
next
  case (Cons summary rest)
  let ?kw = "main_keyword (extract_keywords (nlp M) (str_hash M) summary)"
  from assms Cons obtain t s1 where ch: "choice CAPTION_TEMPLATES s = Some (Inr t, s1)"
      and fmt: "py_format t [?kw] = Inr c"
    by (auto simp: caption_from_text_def rbind_Some_Inr rlift_def Let_def)
  from ch have "t \<in> set CAPTION_TEMPLATES" by (rule choice_in_set)
  then obtain p sf where "(p, sf) \<in> set template_parts" and "py_format t [?kw] = Inr (p @ ?kw @ sf)"
    using format_template by blast
  with fmt Cons that show ?thesis by simp
qed

subsection \<open>\<open>caption_from_text\<close>\<close>

text \<open>C11: when the summariser returns a summary and the random stream is fair (infinitely
  many words with a clear top bit), \<open>caption_from_text\<close> returns; the caption is one of the
  ten templates with the main keyword of the summary (its first keyword, or
  \<open>"moment"\<close>) in place of the field, and it is not empty.\<close>

theorem caption_from_text_template:
  assumes "bart_pipeline M prompt bart_args = summary # rest" and "msb_clear_often s"
  shows "\<exists>p sf c s'. (p, sf) \<in> set template_parts \<and>
           caption_from_text M prompt s = Some (Inr c, s') \<and>
           c = p @ main_keyword (extract_keywords (nlp M) (str_hash M) summary) @ sf \<and> c \<noteq> []"
proof -
  obtain p sf s' where ps: "(p, sf) \<in> set template_parts"
      and r: "caption_from_text M prompt s =
        Some (Inr (p @ main_keyword (extract_keywords (nlp M) (str_hash M) summary) @ sf), s')"
    using caption_from_text_returns [OF assms] by blast
  moreover have "p @ main_keyword (extract_keywords (nlp M) (str_hash M) summary) @ sf \<noteq> []"
    using ps template_parts_nonempty by auto
  ultimately show ?thesis by blast
qed

subsection \<open>\<open>caption_from_image\<close>\<close>

text \<open>C12: when the image decodes and the model returns at least one sequence,
  \<open>caption_from_image\<close> returns the first decoded candidate with the most words: it is a
  candidate, no candidate has more words, and every earlier one has fewer.\<close>

theorem caption_from_image_longest:
  assumes "open_rgb M f = Some img" and "blip_generate M blip_config img \<noteq> []"
  shows "caption_from_image M f =
           Inr (first_max word_count (map (blip_decode M) (blip_generate M blip_config img))) \<and>
         first_max word_count (map (blip_decode M) (blip_generate M blip_config img))
           \<in> set (map (blip_decode M) (blip_generate M blip_config img)) \<and>
         (\<forall>c \<in> set (map (blip_decode M) (blip_generate M blip_config img)).
           word_count c \<le> word_count (first_max word_count (map (blip_decode M) (blip_generate M blip_config img))))"
proof -
  let ?cs = "map (blip_decode M) (blip_generate M blip_config img)"
  have "?cs \<noteq> []" using assms(2) by simp
  then show ?thesis
    using assms(1) first_max_props [of ?cs word_count]
    by (simp add: caption_from_image_def py_max_key_first_max)
qed

text \<open>C13: an image file PIL cannot decode makes \<open>caption_from_image\<close> raise, instead of
  returning an empty caption.\<close>

theorem caption_from_image_undecodable:
  "open_rgb M f = None \<Longrightarrow> caption_from_image M f = Inl UnidentifiedImageError"
  by (simp add: caption_from_image_def)

subsection \<open>The templates as format strings, and the caption's length\<close>

text \<open>C24: every caption template is a well-formed format string with exactly one automatic
  field: formatting it with one argument succeeds and replaces the two characters \<open>{}\<close>
  by the argument, and formatting it with no argument raises \<open>IndexError\<close>.\<close>

theorem caption_templates_format:
  assumes "t \<in> set CAPTION_TEMPLATES"
  shows "(\<exists>c. py_format t [kw] = Inr c \<and> length c + 2 = length t + length kw) \<and>
         py_format t [] = Inl IndexError"
proof -
  from assms obtain p sf where ps: "(p, sf) \<in> set template_parts" and t: "t = p @ [0x7B, 0x7D] @ sf"
    by (auto simp: templates_split)
  with template_parts_no_braces have np: "no_braces p" and ns: "no_braces sf" by auto
  have "py_format t [kw] = Inr (p @ kw @ sf)"
    unfolding t using np ns by (rule py_format_one_field)
  moreover have "py_format t [] = Inl IndexError"
    unfolding t py_format_def using py_format_from_literal [OF np, of "[0x7B, 0x7D] @ sf" "[]" 0]
    by simp
  ultimately show ?thesis by (simp add: t)
qed

text \<open>C25: a caption made from text is 12 to 39 code points longer than its main keyword: the
  shortest template (\<open>"{} and chill "\<close> and an emoji) adds 12, the longest
  (\<open>"Can we talk about how amazing this {} is?"\<close>) adds 39.\<close>

theorem caption_from_text_length:
  assumes "caption_from_text M prompt s = Some (Inr c, s')"
  shows "\<exists>summary rest. bart_pipeline M prompt bart_args = summary # rest \<and>
           length (main_keyword (extract_keywords (nlp M) (str_hash M) summary)) + 12 \<le> length c \<and>
           length c \<le> length (main_keyword (extract_keywords (nlp M) (str_hash M) summary)) + 39"
  using assms
proof (cases rule: caption_from_text_Inr)
  case (1 summary rest p sf)
  with template_parts_lengths have "12 \<le> length (p @ sf) \<and> length (p @ sf) \<le> 39" by auto
  with 1 show ?thesis by auto
qed

text \<open>C29: when the summary has no keyword, the caption uses the fallback word
  \<open>"moment"\<close> in one of the templates, on every fair random stream.\<close>

theorem caption_from_text_moment:
  assumes "bart_pipeline M prompt bart_args = summary # rest"
    and "extract_keywords (nlp M) (str_hash M) summary = []" and "msb_clear_often s"
  shows "\<exists>p sf s'. (p, sf) \<in> set template_parts \<and>
           caption_from_text M prompt s = Some (Inr (p @ u ''moment'' @ sf), s')"
  using caption_from_text_returns [OF assms(1,3)] assms(2) by (simp add: main_keyword_def) blast

subsection \<open>Witnesses\<close>

theorem caption_from_text_template_witness:
  "caption_from_text example_models (u ''sunset at the beach'') (sconst 0) =
     Some (Inr (u ''Living for moments like this beach '' @ [0x2728]), sconst 0) \<and>
   (\<exists>p sf c s'. (p, sf) \<in> set template_parts \<and>
      caption_from_text example_models (u ''sunset at the beach'') (sconst 0) = Some (Inr c, s') \<and>
      c = p @ u ''beach'' @ sf \<and> c \<noteq> [])"
proof -
  have b: "bart_pipeline example_models (u ''sunset at the beach'') bart_args =
      u ''sunset at the beach'' # []"
    by (simp add: example_models_def u_def)
  have kw: "main_keyword (extract_keywords (nlp example_models) (str_hash example_models)
      (u ''sunset at the beach'')) = u ''beach''"
    by (simp add: py_eval)
  have "caption_from_text example_models (u ''sunset at the beach'') (sconst 0) =
     Some (Inr (u ''Living for moments like this beach '' @ [0x2728]), sconst 0)"
    by (simp add: py_eval)
  moreover have "\<exists>p sf c s'. (p, sf) \<in> set template_parts \<and>
      caption_from_text example_models (u ''sunset at the beach'') (sconst 0) = Some (Inr c, s') \<and>
      c = p @ u ''beach'' @ sf \<and> c \<noteq> []"
    using caption_from_text_template [OF b msb_clear_often_sconst0] kw by simp
  ultimately show ?thesis by blast
qed

text \<open>The example of the specification: candidates of 2, 5 and 3 words give the one of 5.\<close>

theorem caption_from_image_longest_witness:
  "caption_from_image example_models True = Inr (u ''a dog on the sandy beach'')"
proof -
  have "caption_from_image example_models True =
      Inr (first_max word_count (map (blip_decode example_models)
        (blip_generate example_models blip_config ())))"
    using caption_from_image_longest [of example_models True "()"]
    by (simp add: example_models_def)
  also have "\<dots> = Inr (u ''a dog on the sandy beach'')"
    by (simp add: py_eval first_max_def)
  finally show ?thesis .
qed

theorem caption_from_image_undecodable_witness:
  "caption_from_image example_models False = Inl UnidentifiedImageError"
  by (rule caption_from_image_undecodable) (simp add: example_models_def)

theorem caption_templates_format_witness:
  "(\<exists>c. py_format (CAPTION_TEMPLATES ! 0) [u ''beach''] = Inr c \<and>
        length c + 2 = length (CAPTION_TEMPLATES ! 0) + length (u ''beach'')) \<and>
   py_format (CAPTION_TEMPLATES ! 0) [] = Inl IndexError"
  by (rule caption_templates_format) (simp add: CAPTION_TEMPLATES_def)

theorem caption_from_text_length_witness:
  "\<exists>summary rest. bart_pipeline example_models (u ''sunset at the beach'') bart_args = summary # rest \<and>
     length (main_keyword (extract_keywords (nlp example_models) (str_hash example_models) summary)) + 12
       \<le> length (u ''Living for moments like this beach '' @ [0x2728]) \<and>
     length (u ''Living for moments like this beach '' @ [0x2728])
       \<le> length (main_keyword (extract_keywords (nlp example_models) (str_hash example_models) summary)) + 39"
  by (rule caption_from_text_length [where s = "sconst 0" and s' = "sconst 0"]) (simp add: py_eval)

theorem caption_from_text_moment_witness:
  "\<exists>p sf s'. (p, sf) \<in> set template_parts \<and>
     caption_from_text (example_models\<lparr>nlp := (\<lambda>_. \<lparr>doc_tokens = [], doc_noun_chunks = []\<rparr>)\<rparr>)
       (u ''sunset at the beach'') (sconst 0) = Some (Inr (p @ u ''moment'' @ sf), s')"
  by (rule caption_from_text_moment [where summary = "u ''sunset at the beach''" and rest = "[]"])
    (simp_all add: example_models_def extract_keywords_def py_set_list_def u_def msb_clear_often_sconst0)

end
