(* ===== verification/RandomSample.thy ===== *)
theory RandomSample
  imports PyRandom
begin

text \<open>
  Termination of both branches of \<open>random.sample\<close> (\<open>PyRandom.sample\<close>) for every
  population below \<open>2 ^ 32\<close>. The set branch redraws an index until it is not yet selected
  (\<open>pick_fresh\<close>); it returns as soon as the stream yields a word whose top bits are a
  fresh index. Every index is such a word, so the loop returns on every stream in which
  every 32-bit word occurs again and again (\<open>every_word_often\<close>), for instance the
  counter stream \<open>counter_stream\<close>. Such a stream also has infinitely many words with a
  clear top bit, so the pool branch returns too.
\<close>

definition every_word_often :: "mt_stream \<Rightarrow> bool" where
  "every_word_often s \<longleftrightarrow> (\<forall>w i. \<exists>j \<ge> i. s !! j = w)"

definition counter_stream :: mt_stream where
  "counter_stream = siterate (\<lambda>w. w + 1) 0"

subsection \<open>Fair streams\<close>

lemma every_word_often_sdrop: "every_word_often s \<Longrightarrow> every_word_often (sdrop m s)"
  unfolding every_word_often_def
  by (metis add.commute le_add_diff_inverse2 nat_add_left_cancel_le sdrop_snth le_add2 le_trans)

lemma every_word_often_msb:
  assumes "every_word_often s"
  shows "msb_clear_often s"
  unfolding msb_clear_often_def
proof (intro allI)
  fix i
  from assms obtain j where "i \<le> j" and "s !! j = 0" unfolding every_word_often_def by blast
  then show "\<exists>j \<ge> i. \<not> bit (s !! j) 31" by auto
qed

lemma snth_counter_stream: "counter_stream !! n = of_nat n"
proof -
  have "siterate (\<lambda>w::32 word. w + 1) x !! n = x + of_nat n" for x
    by (induction n arbitrary: x) (simp_all add: algebra_simps)
  then show ?thesis by (simp add: counter_stream_def)
qed

lemma unat_word32: "unat (w :: 32 word) < 2 ^ 32"
proof -
  have "unat w < 2 ^ LENGTH(32)" by (rule unsigned_less)
  then show ?thesis by simp
qed

lemma unat_of_nat32: "x < 2 ^ 32 \<Longrightarrow> unat (word_of_nat x :: 32 word) = x"
  using unat_of_nat [of x, where 'a = 32] by simp

lemma every_word_often_counter: "every_word_often counter_stream"
  unfolding every_word_often_def
proof (intro allI)
  fix w :: "32 word" and i
  have "unat (word_of_nat (unat w + 2 ^ 32 * i) :: 32 word) = unat w"
    using unat_of_nat [of "unat w + 2 ^ 32 * i", where 'a = 32] unat_word32 [of w] by simp
  then have "counter_stream !! (unat w + 2 ^ 32 * i) = w"
    unfolding snth_counter_stream by (simp only: word_unat_eq_iff)
  moreover have "i \<le> unat w + 2 ^ 32 * i" by simp
  ultimately show "\<exists>j \<ge> i. counter_stream !! j = w" by blast
qed

subsection \<open>A word with given top bits\<close>

lemma top_bits_word:
  assumes "r < 2 ^ k" and "k \<le> 32"
  shows "unat (drop_bit (32 - k) (word_of_nat (r * 2 ^ (32 - k)) :: 32 word)) = r"
proof -
  have "r * 2 ^ (32 - k) < 2 ^ k * 2 ^ (32 - k)"
    using assms(1) by simp
  also have "\<dots> = 2 ^ 32" using assms(2) by (simp flip: power_add)
  finally have h: "unat (word_of_nat (r * 2 ^ (32 - k)) :: 32 word) = r * 2 ^ (32 - k)"
    by (rule unat_of_nat32)
  have d: "unat (drop_bit (32 - k) (word_of_nat (r * 2 ^ (32 - k)) :: 32 word)) =
      unat (word_of_nat (r * 2 ^ (32 - k)) :: 32 word) div 2 ^ (32 - k)"
    by (rule trans [OF unat_drop_bit_eq drop_bit_eq_div])
  show ?thesis
    unfolding d h by simp
qed

subsection \<open>The rejection loop of the set branch\<close>

lemma bit_length_range: "0 < n \<Longrightarrow> n < 2 ^ 32 \<Longrightarrow> 0 < bit_length n \<and> bit_length n \<le> 32"
  using bit_length_le [of n 32] by (simp add: bit_length.simps [of n])

lemma pick_fresh_step:
  assumes "0 < n" and "n < 2 ^ 32"
  shows "pick_fresh n sel s =
           (let r = unat (drop_bit (32 - bit_length n) (shd s))
            in if n \<le> r \<or> r \<in> set sel then pick_fresh n sel (stl s) else Some (Inr r, stl s))"
proof -
  let ?k = "bit_length n"
  let ?r = "unat (drop_bit (32 - ?k) (shd s))"
  have k: "0 < ?k" "?k \<le> 32" using bit_length_range [OF assms] by auto
  have rb: "randbelow n s = (if n \<le> ?r then randbelow n (stl s) else Some (Inr ?r, stl s))"
    using k by (simp add: randbelow_def randbelow_loop.simps [of n ?k s] getrandbits_word)
  show ?thesis
  proof (cases "n \<le> ?r")
    case True
    then show ?thesis
      by (simp add: pick_fresh.simps [of n sel s] pick_fresh.simps [of n sel "stl s"] rb)
  next
    case False
    then show ?thesis
      by (simp add: pick_fresh.simps [of n sel s] pick_fresh.simps [of n sel "stl s"] rb Let_def)
  qed
qed

lemma pick_fresh_reaches:
  assumes "0 < n" and "n < 2 ^ 32" and "r < n" and "r \<notin> set sel"
    and "unat (drop_bit (32 - bit_length n) (s !! i)) = r"
  shows "\<exists>j m. pick_fresh n sel s = Some (Inr j, sdrop m s) \<and> j < n \<and> j \<notin> set sel"
  using assms(5)
proof (induction i arbitrary: s)
  case 0
  then have "pick_fresh n sel s = Some (Inr r, sdrop 1 s)"
    using assms(3,4) by (simp add: pick_fresh_step [OF assms(1,2)])
  with assms(3,4) show ?case by blast
next
  case (Suc i)
  let ?v = "unat (drop_bit (32 - bit_length n) (shd s))"
  show ?case
  proof (cases "n \<le> ?v \<or> ?v \<in> set sel")
    case True
    from Suc.prems have "unat (drop_bit (32 - bit_length n) (stl s !! i)) = r" by simp
    then obtain j m where "pick_fresh n sel (stl s) = Some (Inr j, sdrop m (stl s))"
        and "j < n" and "j \<notin> set sel"
      using Suc.IH by blast
    moreover have "pick_fresh n sel s = pick_fresh n sel (stl s)"
      using True by (simp add: pick_fresh_step [OF assms(1,2)])
    ultimately have "pick_fresh n sel s = Some (Inr j, sdrop (Suc m) s)" by simp
    with \<open>j < n\<close> \<open>j \<notin> set sel\<close> show ?thesis by blast
  next
    case False
    then have "pick_fresh n sel s = Some (Inr ?v, sdrop 1 s)"
      by (simp add: pick_fresh_step [OF assms(1,2)])
    with False show ?thesis by (metis not_le)
  qed
qed

lemma pick_fresh_terminates:
  assumes "n < 2 ^ 32" and "r < n" and "r \<notin> set sel" and "every_word_often s"
  shows "\<exists>j s'. pick_fresh n sel s = Some (Inr j, s') \<and> j < n \<and> j \<notin> set sel \<and> every_word_often s'"
proof -
  have n: "0 < n" using assms(2) by simp
  let ?k = "bit_length n"
  have k: "0 < ?k" "?k \<le> 32" using bit_length_range [OF n assms(1)] by auto
  have "r < 2 ^ ?k" using assms(2) bit_length_bounds [OF n] by simp
  then have top: "unat (drop_bit (32 - ?k) (word_of_nat (r * 2 ^ (32 - ?k)) :: 32 word)) = r"
    using k(2) by (rule top_bits_word)
  obtain i where "s !! i = word_of_nat (r * 2 ^ (32 - ?k))"
    using assms(4) unfolding every_word_often_def by blast
  with top have "unat (drop_bit (32 - ?k) (s !! i)) = r" by simp
  then obtain j m where "pick_fresh n sel s = Some (Inr j, sdrop m s)" and "j < n" and "j \<notin> set sel"
    using pick_fresh_reaches [OF n assms(1-3)] by blast
  with assms(4) show ?thesis by (blast intro: every_word_often_sdrop)
qed

lemma fresh_index:
  assumes "distinct sel" and "\<forall>i \<in> set sel. i < n" and "length sel < n"
  shows "\<exists>r < n. r \<notin> set sel"
proof (rule ccontr)
  assume "\<not> ?thesis"
  then have "{..<n} \<subseteq> set sel" by auto
  then have "n \<le> card (set sel)" using card_mono [of "set sel" "{..<n}"] by simp
  with assms(1,3) show False by (simp add: distinct_card)
qed

lemma set_select_terminates:
  assumes "n < 2 ^ 32" and "distinct sel" and "\<forall>i \<in> set sel. i < n" and "c + length sel \<le> n"
    and "every_word_often s"
  shows "\<exists>rs s'. set_select c pop n sel s = Some (Inr rs, s') \<and> every_word_often s'"
  using assms(2-5)
proof (induction c arbitrary: sel s)
  case 0
  then show ?case by (simp add: rreturn_def)
next
  case (Suc c)
  obtain r where "r < n" and "r \<notin> set sel"
    using fresh_index [of sel n] Suc.prems(1-3) by auto
  then obtain j s1 where pf: "pick_fresh n sel s = Some (Inr j, s1)" and "j < n" and "j \<notin> set sel"
      and "every_word_often s1"
    using pick_fresh_terminates [OF assms(1)] Suc.prems(4) by blast
  moreover have "distinct (j # sel)" and "\<forall>i \<in> set (j # sel). i < n" and "c + length (j # sel) \<le> n"
    using Suc.prems \<open>j < n\<close> \<open>j \<notin> set sel\<close> by auto
  ultimately obtain rest s' where "set_select c pop n (j # sel) s1 = Some (Inr rest, s')"
      and "every_word_often s'"
    using Suc.IH by blast
  with pf show ?case by (auto simp: rbind_apply rreturn_def)
qed

lemma sample_terminates:
  assumes "k \<le> length pop" and "length pop < 2 ^ 32" and "every_word_often s"
  shows "\<exists>rs s'. sample pop k s = Some (Inr rs, s')"
proof (cases "length pop \<le> sample_setsize k")
  case True
  then show ?thesis
    using pool_select_terminates [OF assms(1,2) every_word_often_msb [OF assms(3)], of pop] assms(1)
    by (auto simp: sample_def)
next
  case False
  then show ?thesis
    using set_select_terminates [of "length pop" "[]" k s pop] assms by (auto simp: sample_def)
qed

end
