(* ===== verification/Hashtags.thy ===== *)
theory Hashtags
  imports Keywords RandomSample
begin

text \<open>
  \<open>suggest_hashtags\<close> of \<open>src/caption_utils.py\<close> (lines 75--95).
  \<^item> The file \<open>hashtags.json\<close> is \<open>dict_file\<close>: missing, not JSON, or a JSON object
    given by its members in file order. \<open>json.load\<close> builds the dict by \<open>d[k] = v\<close> for
    each member (\<open>dict_set\<close>): a repeated key keeps its first position and takes its last
    value. A top-level JSON value that is not an object is not modelled.
  \<^item> A member's value is \<open>jval\<close>: an array of strings, a string, or a scalar (number,
    \<open>true\<close>, \<open>false\<close>, \<open>null\<close>); nested objects and arrays of non-strings are not
    modelled. \<open>matched += v\<close> (\<open>list_iadd\<close>) extends by the array, by the characters of
    a string (a \<open>str\<close> is iterable), and raises \<open>TypeError\<close> on a scalar.
  \<^item> The loops of lines 83--85 and 88--90 are \<open>direct_matches\<close> and \<open>related_matches\<close>;
    \<open>any(word in key ...)\<close> is \<open>list_ex\<close> over \<open>sublist\<close>.
  \<^item> \<open>hashtag_data.get("_trending", [])\<close> is \<open>trending_population\<close>, sampled with
    \<open>sample _ 3\<close>; the result is \<open>list(set(matched))[:30]\<close> with the keywords.
\<close>

datatype jval = JArr "ustr list" | JStr ustr | JScalar

type_synonym hashtag_dict = "(ustr \<times> jval) list"

datatype dict_file = NoFile | NotJson | JsonObject "(ustr \<times> jval) list"

fun dict_set :: "hashtag_dict \<Rightarrow> ustr \<Rightarrow> jval \<Rightarrow> hashtag_dict" where
  "dict_set [] k v = [(k, v)]"
| "dict_set ((k', v') # d) k v = (if k' = k then (k, v) # d else (k', v') # dict_set d k v)"

definition dict_of_members :: "(ustr \<times> jval) list \<Rightarrow> hashtag_dict" where
  "dict_of_members ms = fold (\<lambda>(k, v) d. dict_set d k v) ms []"

fun load_hashtags :: "dict_file \<Rightarrow> py_error + hashtag_dict" where
  "load_hashtags NoFile = Inl FileNotFoundError"
| "load_hashtags NotJson = Inl JSONDecodeError"
| "load_hashtags (JsonObject ms) = Inr (dict_of_members ms)"

definition jval_items :: "jval \<Rightarrow> py_error + ustr list" where
  "jval_items v = (case v of
       JArr xs \<Rightarrow> Inr xs
     | JStr s \<Rightarrow> Inr (map (\<lambda>c. [c]) s)
     | JScalar \<Rightarrow> Inl TypeError)"

definition list_iadd :: "ustr list \<Rightarrow> jval \<Rightarrow> py_error + ustr list" where
  "list_iadd acc v = map_sum id ((@) acc) (jval_items v)"

fun direct_matches :: "hashtag_dict \<Rightarrow> ustr list \<Rightarrow> ustr list \<Rightarrow> py_error + ustr list" where
  "direct_matches d [] acc = Inr acc"
| "direct_matches d (w # ws) acc =
     (case map_of d w of
        None \<Rightarrow> direct_matches d ws acc
      | Some v \<Rightarrow> (case list_iadd acc v of Inl e \<Rightarrow> Inl e | Inr acc' \<Rightarrow> direct_matches d ws acc'))"

fun related_matches :: "hashtag_dict \<Rightarrow> ustr list \<Rightarrow> ustr list \<Rightarrow> py_error + ustr list" where
  "related_matches [] kws acc = Inr acc"
| "related_matches ((key, v) # d) kws acc =
     (if list_ex (\<lambda>w. sublist w key) kws
      then (case list_iadd acc v of Inl e \<Rightarrow> Inl e | Inr acc' \<Rightarrow> related_matches d kws acc')
      else related_matches d kws acc)"

definition trending_key :: ustr where
  "trending_key = u ''_trending''"

definition trending_population :: "hashtag_dict \<Rightarrow> py_error + ustr list" where
  "trending_population d = (case map_of d trending_key of
       None \<Rightarrow> Inr []
     | Some v \<Rightarrow> jval_items v)"

definition matched_hashtags :: "hashtag_dict \<Rightarrow> ustr list \<Rightarrow> py_error + ustr list" where
  "matched_hashtags d kws =
     (case direct_matches d kws [] of
        Inl e \<Rightarrow> Inl e
      | Inr m \<Rightarrow> related_matches d kws m)"

definition suggest_hashtags ::
    "('f, 'i) models \<Rightarrow> dict_file \<Rightarrow> ustr \<Rightarrow> (ustr list \<times> ustr list) rnd" where
  "suggest_hashtags M file caption =
     (case load_hashtags file of
        Inl e \<Rightarrow> rraise e
      | Inr d \<Rightarrow>
          (let keywords = extract_keywords (nlp M) (str_hash M) caption in
           case matched_hashtags d keywords of
             Inl e \<Rightarrow> rraise e
           | Inr matched \<Rightarrow>
               (case trending_population d of
                  Inl e \<Rightarrow> rraise e
                | Inr pop \<Rightarrow>
                    rbind (sample pop 3) (\<lambda>trend.
                      rreturn (take 30 (py_set_list (str_hash M) (matched @ trend)), keywords)))))"

definition all_arrays :: "hashtag_dict \<Rightarrow> bool" where
  "all_arrays d \<longleftrightarrow> list_all (\<lambda>(k, v). \<exists>xs. v = JArr xs) d"

definition jval_list :: "jval \<Rightarrow> ustr list" where
  "jval_list v = (case v of JArr xs \<Rightarrow> xs | JStr s \<Rightarrow> map (\<lambda>c. [c]) s | JScalar \<Rightarrow> [])"

definition extend_all :: "ustr list \<Rightarrow> jval list \<Rightarrow> py_error + ustr list" where
  "extend_all acc vs =
     (if JScalar \<in> set vs then Inl TypeError else Inr (acc @ concat (map jval_list vs)))"

definition direct_values :: "hashtag_dict \<Rightarrow> ustr list \<Rightarrow> jval list" where
  "direct_values d kws = concat (map (\<lambda>w. case map_of d w of None \<Rightarrow> [] | Some v \<Rightarrow> [v]) kws)"

definition related_values :: "hashtag_dict \<Rightarrow> ustr list \<Rightarrow> jval list" where
  "related_values d kws = map snd (filter (\<lambda>(key, v). list_ex (\<lambda>w. sublist w key) kws) d)"

definition beach_dict :: hashtag_dict where
  "beach_dict = [(u ''beach'', JArr [u ''#beach'']),
     (u ''_trending'', JArr [u ''#a'', u ''#b'', u ''#c'', u ''#d''])]"

definition beach_file :: dict_file where
  "beach_file = JsonObject beach_dict"

definition trending_file :: "ustr list \<Rightarrow> dict_file" where
  "trending_file tr = JsonObject [(u ''_trending'', JArr tr)]"

definition string_file :: dict_file where
  "string_file = JsonObject [(u ''beach'', JStr (u ''#sea'')),
     (u ''_trending'', JArr [u ''#a'', u ''#b'', u ''#c''])]"

definition big_trending_file :: dict_file where
  "big_trending_file = JsonObject [(u ''_trending'', JArr (map (\<lambda>i. u ''#t'' @ [48 + i]) [0..<25]))]"

lemmas hashtags_eval [py_eval] =
  dict_of_members_def jval_items_def list_iadd_def trending_key_def trending_population_def
  matched_hashtags_def suggest_hashtags_def all_arrays_def beach_dict_def beach_file_def
  trending_file_def string_file_def

subsection \<open>The two matching loops in closed form\<close>

lemma list_iadd_eq:
  "list_iadd acc v = (if v = JScalar then Inl TypeError else Inr (acc @ jval_list v))"
  by (cases v) (simp_all add: list_iadd_def jval_items_def jval_list_def)

lemma extend_all_Cons:
  "extend_all acc (v # vs) =
     (case list_iadd acc v of Inl e \<Rightarrow> Inl e | Inr acc' \<Rightarrow> extend_all acc' vs)"
  by (auto simp: extend_all_def list_iadd_eq)

lemma direct_matches_eq: "direct_matches d kws acc = extend_all acc (direct_values d kws)"
proof (induction kws arbitrary: acc)
  case Nil
  then show ?case by (simp add: extend_all_def direct_values_def)
next
  case (Cons w ws)
  show ?case
  proof (cases "map_of d w")
    case None
    with Cons.IH show ?thesis by (simp add: direct_values_def)
  next
    case (Some v)
    with Cons.IH show ?thesis
      by (simp add: direct_values_def extend_all_Cons split: sum.splits)
  qed
qed

lemma related_matches_eq: "related_matches d kws acc = extend_all acc (related_values d kws)"
proof (induction d arbitrary: acc)
  case Nil
  then show ?case by (simp add: extend_all_def related_values_def)
next
  case (Cons kv d)
  obtain key v where kv: "kv = (key, v)" by fastforce
  with Cons.IH show ?case
    by (simp add: related_values_def extend_all_Cons split: sum.splits)
qed

lemma direct_values_subset: "set (direct_values d kws) \<subseteq> set (related_values d kws)"
proof
  fix v
  assume "v \<in> set (direct_values d kws)"
  then obtain w where w: "w \<in> set kws" and "map_of d w = Some v"
    by (auto simp: direct_values_def split: option.splits)
  then have "(w, v) \<in> set d" by (simp add: map_of_SomeD)
  with w show "v \<in> set (related_values d kws)"
    by (force simp: related_values_def list_ex_iff)
qed

lemma set_concat_jval_list_mono:
  "set vs \<subseteq> set ws \<Longrightarrow> set (concat (map jval_list vs)) \<subseteq> set (concat (map jval_list ws))"
  by auto

lemma matched_hashtags_eq:
  "matched_hashtags d kws = extend_all [] (direct_values d kws @ related_values d kws)"
  by (auto simp: matched_hashtags_def direct_matches_eq related_matches_eq extend_all_def)

lemma extend_all_Inr: "extend_all acc vs = Inr m \<Longrightarrow> set m = set acc \<union> set (concat (map jval_list vs))"
  by (auto simp: extend_all_def split: if_splits)

lemma suggest_hashtags_Inr:
  "suggest_hashtags M file cap s = Some (Inr (tags, kws), s') \<longleftrightarrow>
     (\<exists>d matched pop rs. load_hashtags file = Inr d \<and>
        kws = extract_keywords (nlp M) (str_hash M) cap \<and>
        matched_hashtags d kws = Inr matched \<and> trending_population d = Inr pop \<and>
        sample pop 3 s = Some (Inr rs, s') \<and>
        tags = take 30 (py_set_list (str_hash M) (matched @ rs)))"
  by (auto simp: suggest_hashtags_def rraise_def rreturn_def rbind_Some_Inr Let_def
      split: sum.splits)

lemma suggest_hashtags_InrE:
  assumes "suggest_hashtags M file cap s = Some (Inr (tags, kws), s')"
    and "load_hashtags file = Inr d"
  obtains matched pop rs where "matched_hashtags d kws = Inr matched"
    and "trending_population d = Inr pop" and "sample pop 3 s = Some (Inr rs, s')"
    and "tags = take 30 (py_set_list (str_hash M) (matched @ rs))"
    and "kws = extract_keywords (nlp M) (str_hash M) cap"
proof -
  from assms(1) obtain d' matched pop rs where "load_hashtags file = Inr d'"
      and "matched_hashtags d' kws = Inr matched" and "trending_population d' = Inr pop"
      and "sample pop 3 s = Some (Inr rs, s')"
      and "tags = take 30 (py_set_list (str_hash M) (matched @ rs))"
      and "kws = extract_keywords (nlp M) (str_hash M) cap"
    unfolding suggest_hashtags_Inr by blast
  moreover from this(1) assms(2) have "d' = d" by simp
  ultimately show ?thesis using that by blast
qed

lemma suggest_hashtags_result:
  "suggest_hashtags M file cap s = Some (Inr (tags, kws), s') \<Longrightarrow>
   length tags \<le> 30 \<and> distinct tags \<and> kws = extract_keywords (nlp M) (str_hash M) cap"
  by (auto simp: suggest_hashtags_Inr)

lemma related_values_none:
  "\<forall>(key, v) \<in> set d. \<forall>w \<in> set kws. \<not> sublist w key \<Longrightarrow> related_values d kws = []"
  by (auto simp: related_values_def filter_empty_conv list_ex_iff)

lemma trending_population_JArr:
  "map_of d trending_key = Some (JArr tr) \<Longrightarrow> trending_population d = Inr tr"
  by (simp add: trending_population_def jval_items_def)

lemma sample_three_small:
  assumes "map_of d trending_key = Some (JArr tr)" and "3 \<le> length tr" and "length tr \<le> 21"
    and "msb_clear_often s"
  shows "\<exists>rs s'. sample tr 3 s = Some (Inr rs, s') \<and> length rs = 3 \<and> mset rs \<subseteq># mset tr"
proof -
  have "length tr \<le> sample_setsize 3" using assms(3) by (simp add: sample_setsize_def)
  then obtain rs s' where "sample tr 3 s = Some (Inr rs, s')"
    using sample_small_terminates [of 3 tr s] assms(2,4) by auto
  then show ?thesis using sample_result by blast
qed

lemma matched_hashtags_set:
  "matched_hashtags d kws = Inr m \<Longrightarrow> set m = set (concat (map jval_list (related_values d kws)))"
proof -
  assume "matched_hashtags d kws = Inr m"
  then have "set m = set (concat (map jval_list (direct_values d kws @ related_values d kws)))"
    by (simp add: matched_hashtags_eq extend_all_Inr)
  also have "\<dots> = set (concat (map jval_list (related_values d kws)))"
    using direct_values_subset [of d kws] by auto
  finally show ?thesis .
qed

lemma matched_hashtags_length:
  "matched_hashtags d kws = Inr m \<Longrightarrow>
   length m = length (concat (map jval_list (direct_values d kws @ related_values d kws)))"
  by (auto simp: matched_hashtags_eq extend_all_def split: if_splits)

lemma take_py_set_list_card:
  "card (set xs) \<le> n \<Longrightarrow>
   set (take n (py_set_list h xs)) = set xs \<and> length (take n (py_set_list h xs)) = card (set xs)"
  by (simp add: length_py_set_list)

lemma set_take_py_set_list:
  "length xs \<le> n \<Longrightarrow> set (take n (py_set_list h xs)) = set xs"
  using take_py_set_list_card [of xs n h] card_length [of xs] by simp

lemma load_beach_file: "load_hashtags beach_file = Inr beach_dict"
  by (simp add: beach_file_def beach_dict_def dict_of_members_def u_def)

lemma related_values_beach:
  assumes "u ''beach'' \<in> set kws" and "\<forall>w \<in> set kws. \<not> sublist w trending_key"
  shows "related_values beach_dict kws = [JArr [u ''#beach'']]"
proof -
  have "list_ex (\<lambda>w. sublist w (u ''beach'')) kws" using assms(1) by (auto simp: list_ex_iff)
  moreover have "\<not> list_ex (\<lambda>w. sublist w trending_key) kws" using assms(2) by (auto simp: list_ex_iff)
  ultimately show ?thesis by (simp add: related_values_def beach_dict_def trending_key_def)
qed

lemma related_hashtags_kept:
  assumes "suggest_hashtags M file cap s = Some (Inr (tags, kws), s')"
    and "load_hashtags file = Inr d"
    and "length (concat (map jval_list (direct_values d kws @ related_values d kws))) \<le> 27"
  shows "set (concat (map jval_list (related_values d kws))) \<subseteq> set tags"
proof -
  obtain matched pop rs where m: "matched_hashtags d kws = Inr matched"
      and rs: "sample pop 3 s = Some (Inr rs, s')"
      and t: "tags = take 30 (py_set_list (str_hash M) (matched @ rs))"
    using assms(1,2) by (rule suggest_hashtags_InrE)
  have "length matched \<le> 27"
    using matched_hashtags_length [OF m] assms(3) by (simp only:)
  moreover have "length rs = 3"
    using sample_result [OF rs] by (rule conjunct1)
  ultimately have "length (matched @ rs) \<le> 30" by simp
  then have "set tags = set (matched @ rs)" unfolding t by (rule set_take_py_set_list)
  then show ?thesis using matched_hashtags_set [OF m] by auto
qed

lemma jstr_related_value:
  assumes "(key, JStr str) \<in> set d" and "w \<in> set kws" and "sublist w key"
  shows "set (map (\<lambda>c. [c]) str) \<subseteq> set (concat (map jval_list (related_values d kws)))"
proof -
  have "JStr str \<in> set (related_values d kws)"
    using assms by (force simp: related_values_def list_ex_iff)
  then show ?thesis by (force simp: jval_list_def)
qed

subsection \<open>Termination\<close>

lemma all_arrays_no_scalar: "all_arrays d \<Longrightarrow> (k, JScalar) \<notin> set d"
  by (auto simp: all_arrays_def list_all_iff)

lemma matched_hashtags_all_arrays:
  assumes "all_arrays d"
  shows "\<exists>m. matched_hashtags d kws = Inr m"
proof -
  have "JScalar \<notin> set (related_values d kws)"
    using all_arrays_no_scalar [OF assms] by (auto simp: related_values_def)
  then have "JScalar \<notin> set (direct_values d kws @ related_values d kws)"
    using direct_values_subset [of d kws] by auto
  then show ?thesis by (simp add: matched_hashtags_eq extend_all_def)
qed

lemma suggest_hashtags_returns_fair:
  assumes "load_hashtags file = Inr d" and "all_arrays d"
    and "map_of d trending_key = Some (JArr tr)" and "3 \<le> length tr" and "length tr < 2 ^ 32"
    and "every_word_often s"
  shows "\<exists>tags kws s'. suggest_hashtags M file cap s = Some (Inr (tags, kws), s')"
proof -
  let ?kws = "extract_keywords (nlp M) (str_hash M) cap"
  obtain m where m: "matched_hashtags d ?kws = Inr m"
    using matched_hashtags_all_arrays [OF assms(2)] by blast
  obtain rs s' where rs: "sample tr 3 s = Some (Inr rs, s')"
    using sample_terminates [OF assms(4,5,6)] by blast
  have "suggest_hashtags M file cap s =
      Some (Inr (take 30 (py_set_list (str_hash M) (m @ rs)), ?kws), s')"
    unfolding suggest_hashtags_Inr using assms(1) m trending_population_JArr [OF assms(3)] rs by blast
  then show ?thesis by blast
qed

lemma suggest_hashtags_returns:
  assumes "load_hashtags file = Inr d" and "all_arrays d"
    and "map_of d trending_key = Some (JArr tr)" and "3 \<le> length tr" and "length tr \<le> 21"
    and "msb_clear_often s"
  shows "\<exists>tags kws s'. suggest_hashtags M file cap s = Some (Inr (tags, kws), s') \<and> msb_clear_often s'"
proof -
  let ?kws = "extract_keywords (nlp M) (str_hash M) cap"
  obtain m where m: "matched_hashtags d ?kws = Inr m"
    using matched_hashtags_all_arrays [OF assms(2)] by blast
  have "length tr \<le> sample_setsize 3" using assms(5) by (simp add: sample_setsize_def)
  then obtain rs s' where rs: "sample tr 3 s = Some (Inr rs, s')" and "msb_clear_often s'"
    using sample_small_terminates [of 3 tr s] assms(4,6) by auto
  moreover have "suggest_hashtags M file cap s =
      Some (Inr (take 30 (py_set_list (str_hash M) (m @ rs)), ?kws), s')"
    unfolding suggest_hashtags_Inr using assms(1) m trending_population_JArr [OF assms(3)] rs by blast
  ultimately show ?thesis by blast
qed

subsection \<open>Properties of \<open>suggest_hashtags\<close>\<close>

text \<open>C1: whatever the dictionary, the caption, the models and the random stream, a result of
  \<open>suggest_hashtags\<close> has at most 30 hashtags, no two equal, and its keywords are those of
  the caption.\<close>

theorem suggest_hashtags_bounded:
  assumes "suggest_hashtags M file cap s = Some (Inr (tags, kws), s')"
  shows "length tags \<le> 30 \<and> distinct tags \<and> kws = extract_keywords (nlp M) (str_hash M) cap"
  using assms by (rule suggest_hashtags_result)

text \<open>C2: when no dictionary key contains a keyword of the caption and the trending list has
  between 3 and 21 distinct entries, \<open>suggest_hashtags\<close> returns (on a fair random stream)
  exactly 3 hashtags, all of them trending.\<close>

theorem suggest_hashtags_no_match:
  assumes "load_hashtags file = Inr d"
    and "\<forall>(key, v) \<in> set d. \<forall>w \<in> set (extract_keywords (nlp M) (str_hash M) cap). \<not> sublist w key"
    and "map_of d trending_key = Some (JArr tr)" and "distinct tr"
    and "3 \<le> length tr" and "length tr \<le> 21" and "msb_clear_often s"
  shows "\<exists>tags s'. suggest_hashtags M file cap s =
           Some (Inr (tags, extract_keywords (nlp M) (str_hash M) cap), s') \<and>
         length tags = 3 \<and> set tags \<subseteq> set tr"
proof -
  let ?kws = "extract_keywords (nlp M) (str_hash M) cap"
  have "related_values d ?kws = []" using assms(2) by (rule related_values_none)
  moreover have "set (direct_values d ?kws) \<subseteq> set (related_values d ?kws)"
    by (rule direct_values_subset)
  ultimately have m: "matched_hashtags d ?kws = Inr []"
    by (simp add: matched_hashtags_eq extend_all_def)
  obtain rs s' where rs: "sample tr 3 s = Some (Inr rs, s')" "length rs = 3" "mset rs \<subseteq># mset tr"
    using sample_three_small assms(3,5,6,7) by blast
  have "distinct rs" using rs(3) assms(4) by (rule distinct_subset_mset)
  then have "length (take 30 (py_set_list (str_hash M) ([] @ rs))) = 3"
    using rs(2) by (simp add: length_py_set_list distinct_card)
  moreover have "set (take 30 (py_set_list (str_hash M) ([] @ rs))) \<subseteq> set tr"
    using rs(3) by (auto dest!: set_take_subset [THEN subsetD] mset_subset_eqD)
  ultimately show ?thesis
    using assms(1,3) m rs(1) by (auto simp: suggest_hashtags_Inr trending_population_JArr)
qed

text \<open>C4: every suggested hashtag comes from the value of a dictionary key that contains a
  keyword of the caption, or from the trending list.\<close>

theorem suggest_hashtags_sources:
  assumes "suggest_hashtags M file cap s = Some (Inr (tags, kws), s')"
    and "load_hashtags file = Inr d" and "trending_population d = Inr pop"
  shows "set tags \<subseteq> set (concat (map jval_list (related_values d kws))) \<union> set pop"
proof -
  obtain matched pop' rs where m: "matched_hashtags d kws = Inr matched"
      and p: "trending_population d = Inr pop'" and rs: "sample pop' 3 s = Some (Inr rs, s')"
      and t: "tags = take 30 (py_set_list (str_hash M) (matched @ rs))"
    using assms(1,2) by (rule suggest_hashtags_InrE)
  have "pop' = pop" using p assms(3) by simp
  then have "mset rs \<subseteq># mset pop" using sample_result [OF rs] by simp
  then have "set rs \<subseteq> set pop" by (metis set_mset_mono set_mset_mset)
  moreover have "set tags \<subseteq> set (py_set_list (str_hash M) (matched @ rs))"
    unfolding t by (rule set_take_subset)
  ultimately show ?thesis
    using matched_hashtags_set [OF m] by auto
qed

text \<open>C3: the example of the specification, for every caption whose keywords include
  \<open>beach\<close> and none of which occurs in \<open>_trending\<close>: with the dictionary
  \<open>{"beach": ["#beach"], "_trending": ["#a","#b","#c","#d"]}\<close> and a fair random stream,
  \<open>suggest_hashtags\<close> returns \<open>#beach\<close> and exactly 3 of the trending tags, 4 in all,
  no two equal.\<close>

theorem suggest_hashtags_beach:
  assumes "u ''beach'' \<in> set (extract_keywords (nlp M) (str_hash M) cap)"
    and "\<forall>w \<in> set (extract_keywords (nlp M) (str_hash M) cap). \<not> sublist w trending_key"
    and "msb_clear_often s"
  shows "\<exists>tags s'. suggest_hashtags M beach_file cap s =
           Some (Inr (tags, extract_keywords (nlp M) (str_hash M) cap), s') \<and>
         u ''#beach'' \<in> set tags \<and> length tags = 4 \<and> distinct tags \<and>
         set tags - {u ''#beach''} \<subseteq> set [u ''#a'', u ''#b'', u ''#c'', u ''#d''] \<and>
         card (set tags \<inter> set [u ''#a'', u ''#b'', u ''#c'', u ''#d'']) = 3"
proof -
  let ?kws = "extract_keywords (nlp M) (str_hash M) cap"
  let ?tr = "[u ''#a'', u ''#b'', u ''#c'', u ''#d'']"
  have rv: "related_values beach_dict ?kws = [JArr [u ''#beach'']]"
    using assms(1,2) by (rule related_values_beach)
  then have "JScalar \<notin> set (direct_values beach_dict ?kws @ related_values beach_dict ?kws)"
    using direct_values_subset [of beach_dict ?kws] by auto
  then obtain m where m: "matched_hashtags beach_dict ?kws = Inr m"
    by (simp add: matched_hashtags_eq extend_all_def)
  have sm: "set m = {u ''#beach''}"
    using matched_hashtags_set [OF m] rv by (simp add: jval_list_def)
  have t: "map_of beach_dict trending_key = Some (JArr ?tr)"
    by (simp add: beach_dict_def trending_key_def u_def)
  obtain rs s' where rs: "sample ?tr 3 s = Some (Inr rs, s')" "length rs = 3" "mset rs \<subseteq># mset ?tr"
    using sample_three_small [OF t] assms(3) by fastforce
  have "distinct rs" using rs(3) by (rule distinct_subset_mset) (simp add: u_def)
  have rs_tr: "set rs \<subseteq> set ?tr" using rs(3) by (metis set_mset_mono set_mset_mset)
  moreover have nt: "u ''#beach'' \<notin> set ?tr" by (simp add: u_def)
  ultimately have nb: "u ''#beach'' \<notin> set rs" by blast
  have cr: "card (set rs) = 3" using \<open>distinct rs\<close> rs(2) by (simp add: distinct_card)
  have s_all: "set (m @ rs) = insert (u ''#beach'') (set rs)" using sm by simp
  then have c4: "card (set (m @ rs)) = 4" using nb cr by simp
  let ?tags = "take 30 (py_set_list (str_hash M) (m @ rs))"
  have tg: "set ?tags = insert (u ''#beach'') (set rs) \<and> length ?tags = 4"
    using take_py_set_list_card [of "m @ rs" 30 "str_hash M"] c4 s_all by simp
  have int: "set ?tags \<inter> set ?tr = set rs"
  proof -
    have g: "\<And>b A T. b \<notin> T \<Longrightarrow> A \<subseteq> T \<Longrightarrow> insert b A \<inter> T = A" by blast
    show ?thesis unfolding tg [THEN conjunct1] using nt rs_tr by (rule g)
  qed
  have sug: "suggest_hashtags M beach_file cap s = Some (Inr (?tags, ?kws), s')"
    unfolding suggest_hashtags_Inr using load_beach_file m trending_population_JArr [OF t] rs(1) by blast
  show ?thesis
  proof (intro exI conjI)
    show "suggest_hashtags M beach_file cap s = Some (Inr (?tags, ?kws), s')" by (fact sug)
    show "u ''#beach'' \<in> set ?tags" unfolding tg [THEN conjunct1] by (rule insertI1)
    show "length ?tags = 4" using tg by (rule conjunct2)
    show "distinct ?tags" by (simp add: distinct_py_set_list)
    show "set ?tags - {u ''#beach''} \<subseteq> set ?tr" unfolding tg [THEN conjunct1] using rs_tr by blast
    show "card (set ?tags \<inter> set ?tr) = 3" unfolding int by (fact cr)
  qed
qed

text \<open>C5: when the matched hashtags and the three trending ones fit in 30, every hashtag of a
  dictionary key that contains a keyword is suggested: the cut at 30 drops none of them.\<close>

theorem suggest_hashtags_complete:
  assumes "suggest_hashtags M file cap s = Some (Inr (tags, kws), s')"
    and "load_hashtags file = Inr d"
    and "length (concat (map jval_list (direct_values d kws @ related_values d kws))) \<le> 27"
  shows "set (concat (map jval_list (related_values d kws))) \<subseteq> set tags"
  using assms by (rule related_hashtags_kept)

text \<open>C6: a trending list of fewer than three entries, in particular a dictionary without
  \<open>"_trending"\<close> (the default \<open>[]\<close> of \<open>.get\<close>), makes \<open>random.sample\<close> raise
  \<open>ValueError\<close>, and no hashtag is returned.\<close>

theorem suggest_hashtags_few_trending:
  assumes "load_hashtags file = Inr d"
    and "matched_hashtags d (extract_keywords (nlp M) (str_hash M) cap) = Inr m"
    and "trending_population d = Inr pop" and "length pop < 3"
  shows "suggest_hashtags M file cap s = Some (Inl ValueError, s)"
  using assms by (simp add: suggest_hashtags_def sample_too_large rbind_apply)

text \<open>C7: a missing \<open>hashtags.json\<close> raises \<open>FileNotFoundError\<close> and a file that is not JSON
  raises \<open>JSONDecodeError\<close>, before any random draw.\<close>

theorem suggest_hashtags_load_errors:
  "suggest_hashtags M NoFile cap s = Some (Inl FileNotFoundError, s) \<and>
   suggest_hashtags M NotJson cap s = Some (Inl JSONDecodeError, s)"
  by (simp add: suggest_hashtags_def rraise_def)

text \<open>C8: a dictionary value that is a number, a boolean or null, under a key containing a
  keyword, makes \<open>matched += ...\<close> raise \<open>TypeError\<close>.\<close>

theorem suggest_hashtags_scalar_value:
  assumes "load_hashtags file = Inr d" and "(key, JScalar) \<in> set d"
    and "w \<in> set (extract_keywords (nlp M) (str_hash M) cap)" and "sublist w key"
  shows "suggest_hashtags M file cap s = Some (Inl TypeError, s)"
proof -
  let ?kws = "extract_keywords (nlp M) (str_hash M) cap"
  have "JScalar \<in> set (related_values d ?kws)"
    using assms(2-4) by (force simp: related_values_def list_ex_iff)
  then have "matched_hashtags d ?kws = Inl TypeError"
    by (simp add: matched_hashtags_eq extend_all_def)
  then show ?thesis using assms(1) by (simp add: suggest_hashtags_def rraise_def)
qed

text \<open>C9: a dictionary value that is a string, not a list, under a key that contains a
  keyword, adds the string's characters as separate one-character hashtags (\<open>matched += v\<close>
  iterates over a \<open>str\<close>): with \<open>"beach": "#sea"\<close> the suggestions include \<open>#\<close>,
  \<open>s\<close>, \<open>e\<close> and \<open>a\<close>. This holds whenever the matched hashtags and the 3 trending ones
  fit in the cut at 30.\<close>

theorem suggest_hashtags_string_value:
  assumes "suggest_hashtags M file cap s = Some (Inr (tags, kws), s')"
    and "load_hashtags file = Inr d" and "(key, JStr str) \<in> set d"
    and "w \<in> set kws" and "sublist w key"
    and "length (concat (map jval_list (direct_values d kws @ related_values d kws))) \<le> 27"
  shows "set (map (\<lambda>c. [c]) str) \<subseteq> set tags"
  using jstr_related_value [OF assms(3-5)] related_hashtags_kept [OF assms(1,2,6)] by (rule order_trans)

text \<open>C10: with a fair random stream, a trending list of three entries of which two are equal
  gives two hashtags, not three: the sample has three entries but the set of them has two.\<close>

theorem suggest_hashtags_duplicate_trending:
  assumes "msb_clear_often s"
  shows "\<exists>tags kws s'. suggest_hashtags example_models (trending_file [u ''#a'', u ''#a'', u ''#b'']) cap s =
           Some (Inr (tags, kws), s') \<and> length tags = 2"
proof -
  let ?tr = "[u ''#a'', u ''#a'', u ''#b'']"
  let ?d = "[(u ''_trending'', JArr ?tr)]"
  let ?kws = "extract_keywords (nlp example_models) (str_hash example_models) cap"
  have t: "map_of ?d trending_key = Some (JArr ?tr)"
    by (simp add: trending_key_def)
  then obtain rs s' where rs: "sample ?tr 3 s = Some (Inr rs, s')" "length rs = 3" "mset rs \<subseteq># mset ?tr"
    using sample_three_small [of _ ?tr s] assms by fastforce
  then have "mset rs = mset ?tr" by (intro mset_subset_eq_length_eq) simp_all
  then have "set rs = set ?tr" by (metis set_mset_mset)
  then have len: "length (take 30 (py_set_list (str_hash example_models) ([] @ rs))) = 2"
    by (simp add: length_py_set_list u_def)
  have m: "matched_hashtags ?d ?kws = Inr []"
    by (simp add: py_eval)
  have l: "load_hashtags (trending_file ?tr) = Inr ?d"
    by (simp add: trending_file_def dict_of_members_def)
  have "suggest_hashtags example_models (trending_file ?tr) cap s =
      Some (Inr (take 30 (py_set_list (str_hash example_models) ([] @ rs)), ?kws), s')"
    unfolding suggest_hashtags_Inr using l m trending_population_JArr [OF t] rs(1) by blast
  with len show ?thesis by blast
qed

text \<open>C23: when the dictionary's values are all arrays and its trending list has 3 to 21
  entries, \<open>suggest_hashtags\<close> returns on every fair random stream, and the stream it leaves
  is fair, so later calls return too.\<close>

theorem suggest_hashtags_terminates:
  assumes "load_hashtags file = Inr d" and "all_arrays d"
    and "map_of d trending_key = Some (JArr tr)" and "3 \<le> length tr" and "length tr \<le> 21"
    and "msb_clear_often s"
  shows "\<exists>tags kws s'. suggest_hashtags M file cap s = Some (Inr (tags, kws), s') \<and> msb_clear_often s'"
  using assms by (rule suggest_hashtags_returns)

text \<open>C27: \<open>suggest_hashtags\<close> returns for a trending list of any length from 3 on, also
  beyond the 21 entries where \<open>random.sample\<close> switches to its rejection set, on every
  random stream in which every 32-bit word keeps occurring.\<close>

theorem suggest_hashtags_terminates_any:
  assumes "load_hashtags file = Inr d" and "all_arrays d"
    and "map_of d trending_key = Some (JArr tr)" and "3 \<le> length tr" and "length tr < 2 ^ 32"
    and "every_word_often s"
  shows "\<exists>tags kws s'. suggest_hashtags M file cap s = Some (Inr (tags, kws), s')"
  using assms by (rule suggest_hashtags_returns_fair)

text \<open>C28: the direct-match loop of lines 83--85 is redundant: running only the related-match
  loop of lines 88--90 gives the same set of hashtags, and raises exactly when the two loops
  together raise. A key equal to a keyword also contains it, so every direct match is a
  related match and the first loop only adds duplicates, which \<open>list(set(...))\<close> drops.\<close>

theorem matched_hashtags_related_only:
  "map_sum id set (matched_hashtags d kws) = map_sum id set (related_matches d kws [])"
proof -
  have sub: "set (direct_values d kws) \<subseteq> set (related_values d kws)"
    by (rule direct_values_subset)
  then have "JScalar \<in> set (direct_values d kws @ related_values d kws) \<longleftrightarrow>
      JScalar \<in> set (related_values d kws)" by auto
  moreover have "set (concat (map jval_list (direct_values d kws @ related_values d kws))) =
      set (concat (map jval_list (related_values d kws)))"
    using sub by auto
  ultimately show ?thesis
    by (simp add: matched_hashtags_eq related_matches_eq extend_all_def)
qed

subsection \<open>Witnesses\<close>

text \<open>The example of the specification: the caption about a sunset at the beach, a dictionary
  with \<open>"beach"\<close> and four trending tags.\<close>

theorem suggest_hashtags_bounded_witness:
  "suggest_hashtags example_models beach_file (u ''sunset at the beach'') (sconst 0) =
     Some (Inr ([u ''#beach'', u ''#a'', u ''#d'', u ''#c''], [u ''beach'', u ''sunset'', u ''the beach'']), sconst 0) \<and>
   length [u ''#beach'', u ''#a'', u ''#d'', u ''#c''] \<le> 30"
proof -
  have e: "suggest_hashtags example_models beach_file (u ''sunset at the beach'') (sconst 0) =
     Some (Inr ([u ''#beach'', u ''#a'', u ''#d'', u ''#c''], [u ''beach'', u ''sunset'', u ''the beach'']), sconst 0)"
    by (simp add: py_eval)
  show ?thesis using e suggest_hashtags_bounded [OF e] by simp
qed

theorem suggest_hashtags_no_match_witness:
  "\<exists>tags s'. suggest_hashtags example_models (trending_file [u ''#a'', u ''#b'', u ''#c'']) (u ''x'') (sconst 0) =
     Some (Inr (tags, extract_keywords (nlp example_models) (str_hash example_models) (u ''x'')), s') \<and>
   length tags = 3 \<and> set tags \<subseteq> set [u ''#a'', u ''#b'', u ''#c'']"
  by (rule suggest_hashtags_no_match [where d = "[(u ''_trending'', JArr [u ''#a'', u ''#b'', u ''#c''])]"])
    (simp_all add: py_eval msb_clear_often_sconst0)

theorem suggest_hashtags_sources_witness:
  "set [u ''#beach'', u ''#a'', u ''#d'', u ''#c''] \<subseteq>
     set (concat (map jval_list (related_values beach_dict [u ''beach'', u ''sunset'', u ''the beach'']))) \<union>
     set [u ''#a'', u ''#b'', u ''#c'', u ''#d'']"
  by (rule suggest_hashtags_sources [of example_models beach_file "u ''sunset at the beach''" "sconst 0"
        _ _ "sconst 0"])
    (simp_all add: py_eval)

theorem suggest_hashtags_complete_witness:
  "set (concat (map jval_list (related_values beach_dict [u ''beach'', u ''sunset'', u ''the beach''])))
     \<subseteq> set [u ''#beach'', u ''#a'', u ''#d'', u ''#c'']"
  by (rule suggest_hashtags_complete [of example_models beach_file "u ''sunset at the beach''" "sconst 0"
        _ _ "sconst 0"])
    (simp_all add: py_eval jval_list_def direct_values_def related_values_def)

text \<open>A dictionary with no \<open>"_trending"\<close> key.\<close>

theorem suggest_hashtags_few_trending_witness:
  "suggest_hashtags example_models (JsonObject [(u ''beach'', JArr [u ''#beach''])])
     (u ''sunset at the beach'') (sconst 0) = Some (Inl ValueError, sconst 0)"
  by (rule suggest_hashtags_few_trending [where d = "[(u ''beach'', JArr [u ''#beach''])]"
        and m = "[u ''#beach'', u ''#beach'']" and pop = "[]"])
    (simp_all add: py_eval)

theorem suggest_hashtags_scalar_value_witness:
  "suggest_hashtags example_models (JsonObject [(u ''beach'', JScalar)])
     (u ''sunset at the beach'') (sconst 0) = Some (Inl TypeError, sconst 0)"
  by (rule suggest_hashtags_scalar_value [where d = "[(u ''beach'', JScalar)]" and key = "u ''beach''"
        and w = "u ''beach''"])
    (simp_all add: py_eval)

theorem suggest_hashtags_duplicate_trending_witness:
  "\<exists>tags kws s'. suggest_hashtags example_models (trending_file [u ''#a'', u ''#a'', u ''#b''])
     (u ''x'') (sconst 0) = Some (Inr (tags, kws), s') \<and> length tags = 2"
  by (rule suggest_hashtags_duplicate_trending) (rule msb_clear_often_sconst0)

theorem suggest_hashtags_beach_witness:
  "\<exists>tags s'. suggest_hashtags example_models beach_file (u ''sunset at the beach'') (sconst 0) =
     Some (Inr (tags, [u ''beach'', u ''sunset'', u ''the beach'']), s') \<and>
   u ''#beach'' \<in> set tags \<and> length tags = 4 \<and> distinct tags \<and>
   set tags - {u ''#beach''} \<subseteq> set [u ''#a'', u ''#b'', u ''#c'', u ''#d''] \<and>
   card (set tags \<inter> set [u ''#a'', u ''#b'', u ''#c'', u ''#d'']) = 3"
proof -
  have k: "extract_keywords (nlp example_models) (str_hash example_models) (u ''sunset at the beach'') =
      [u ''beach'', u ''sunset'', u ''the beach'']"
    by (simp add: py_eval)
  have "u ''beach'' \<in> set [u ''beach'', u ''sunset'', u ''the beach''] \<and>
      (\<forall>w \<in> set [u ''beach'', u ''sunset'', u ''the beach'']. \<not> sublist w trending_key)"
    by (simp add: py_eval)
  then show ?thesis
    using suggest_hashtags_beach [of example_models "u ''sunset at the beach''" "sconst 0"]
      msb_clear_often_sconst0 unfolding k by blast
qed

theorem suggest_hashtags_terminates_witness:
  "\<exists>tags kws s'. suggest_hashtags example_models beach_file (u ''sunset at the beach'') (sconst 0) =
     Some (Inr (tags, kws), s') \<and> msb_clear_often s'"
  by (rule suggest_hashtags_terminates [OF load_beach_file, where tr = "[u ''#a'', u ''#b'', u ''#c'', u ''#d'']"])
    (simp_all add: all_arrays_def beach_dict_def trending_key_def u_def msb_clear_often_sconst0)

text \<open>A trending list of 25 entries: \<open>random.sample\<close> takes its set branch.\<close>

theorem suggest_hashtags_terminates_any_witness:
  "\<exists>tags kws s'. suggest_hashtags example_models big_trending_file (u ''sunset at the beach'')
     counter_stream = Some (Inr (tags, kws), s')"
  by (rule suggest_hashtags_terminates_any
        [where d = "[(u ''_trending'', JArr (map (\<lambda>i. u ''#t'' @ [48 + i]) [0..<25]))]"
          and tr = "map (\<lambda>i. u ''#t'' @ [48 + i]) [0..<25]"])
    (simp_all add: big_trending_file_def dict_of_members_def all_arrays_def trending_key_def u_def
      every_word_often_counter)

theorem suggest_hashtags_string_value_witness:
  "set (map (\<lambda>c. [c]) (u ''#sea'')) \<subseteq> set [[0x23], [0x73], [0x65], [0x61], u ''#a'', u ''#c'', u ''#b'']"
  by (rule suggest_hashtags_string_value [of example_models string_file "u ''sunset at the beach''"
        "sconst 0" _ "[u ''beach'', u ''sunset'', u ''the beach'']" "sconst 0"
        "[(u ''beach'', JStr (u ''#sea'')), (u ''_trending'', JArr [u ''#a'', u ''#b'', u ''#c''])]"
        "u ''beach''" _ "u ''beach''"])
    (simp_all add: py_eval direct_values_def related_values_def jval_list_def)

end
