(* ===== verification/App.thy ===== *)
theory App
  imports Captions Hashtags
begin

text \<open>
  The Streamlit script \<open>src/app.py\<close>. Streamlit runs the whole script again on every user
  interaction (a rerun); what survives a rerun is \<open>st.session_state\<close> and, in the same
  process, the generator of \<open>random\<close>. A rerun is \<open>app_run\<close>: given the widgets' values
  (\<open>ui_input\<close>: the radio \<open>option\<close>, the uploaded file, the text area and whether the
  button was clicked) it runs the branch of lines 42--70 and returns the new session state.
  An exception stops the script before the assignments of lines 52--55 or 67--70, so the
  state is kept (\<open>rerun\<close>). The display of lines 72--97 is \<open>render\<close>, with the download
  text \<open>full_post\<close> of line 91. Reachable states are \<open>app_reach\<close>, an inductive relation
  over the session and the random stream; the invariant \<open>session_ok\<close> says that the four
  keys are set together, the hashtags are at most 30 and distinct and the keywords are those
  of the caption; hence \<open>render\<close> never reads a missing key.
\<close>

datatype gen_mode = FromImage | FromText

record 'f ui_input =
  ui_option :: gen_mode
  ui_file :: "'f option"
  ui_text :: ustr
  ui_clicked :: bool

record 'f session =
  ss_caption :: "ustr option"
  ss_hashtags :: "ustr list option"
  ss_keywords :: "ustr list option"
  ss_image :: "'f option option"

definition empty_session :: "'f session" where
  "empty_session = \<lparr>ss_caption = None, ss_hashtags = None, ss_keywords = None, ss_image = None\<rparr>"

definition store_result :: "ustr \<Rightarrow> ustr list \<times> ustr list \<Rightarrow> 'f option \<Rightarrow> 'f session \<Rightarrow> 'f session" where
  "store_result caption r img ss =
     (case r of (hashtags, keywords) \<Rightarrow>
        ss\<lparr>ss_caption := Some caption, ss_hashtags := Some hashtags,
           ss_keywords := Some keywords, ss_image := Some img\<rparr>)"

definition generate_from_image ::
    "('f, 'i) models \<Rightarrow> dict_file \<Rightarrow> 'f \<Rightarrow> 'f session \<Rightarrow> 'f session rnd" where
  "generate_from_image M dictf image_file ss =
     rbind (rlift (caption_from_image M image_file)) (\<lambda>caption.
       rbind (suggest_hashtags M dictf caption) (\<lambda>r.
         rreturn (store_result caption r (Some image_file) ss)))"

definition generate_from_text ::
    "('f, 'i) models \<Rightarrow> dict_file \<Rightarrow> ustr \<Rightarrow> 'f session \<Rightarrow> 'f session rnd" where
  "generate_from_text M dictf user_input ss =
     rbind (caption_from_text M user_input) (\<lambda>caption.
       rbind (suggest_hashtags M dictf caption) (\<lambda>r.
         rreturn (store_result caption r None ss)))"

definition app_run ::
    "('f, 'i) models \<Rightarrow> dict_file \<Rightarrow> 'f ui_input \<Rightarrow> 'f session \<Rightarrow> 'f session rnd" where
  "app_run M dictf ui ss =
     (case ui_option ui of
        FromImage \<Rightarrow>
          (case ui_file ui of
             None \<Rightarrow> rreturn ss
           | Some image_file \<Rightarrow>
               if ui_clicked ui then generate_from_image M dictf image_file ss else rreturn ss)
      | FromText \<Rightarrow>
          if ui_text ui \<noteq> [] \<and> ui_clicked ui then generate_from_text M dictf (ui_text ui) ss
          else rreturn ss)"

definition rerun ::
    "('f, 'i) models \<Rightarrow> dict_file \<Rightarrow> 'f ui_input \<Rightarrow> 'f session \<times> mt_stream \<Rightarrow>
     ('f session \<times> mt_stream) option" where
  "rerun M dictf ui st =
     (case st of (ss, s) \<Rightarrow>
        (case app_run M dictf ui ss s of
           None \<Rightarrow> None
         | Some (Inl e, s') \<Rightarrow> Some (ss, s')
         | Some (Inr ss', s') \<Rightarrow> Some (ss', s')))"

inductive app_reach :: "('f, 'i) models \<Rightarrow> dict_file \<Rightarrow> 'f session \<times> mt_stream \<Rightarrow> bool"
  for M dictf where
  start: "app_reach M dictf (empty_session, s)"
| step: "app_reach M dictf st \<Longrightarrow> rerun M dictf ui st = Some st' \<Longrightarrow> app_reach M dictf st'"

record 'f view =
  v_caption :: ustr
  v_image :: "'f option"
  v_keywords :: ustr
  v_hashtags :: ustr
  v_post :: ustr

definition keywords_line :: "ustr list \<Rightarrow> ustr" where
  "keywords_line kws = py_join (u '', '') (map (\<lambda>kw. u ''**'' @ kw @ u ''**'') kws)"

definition full_post :: "ustr \<Rightarrow> ustr list \<Rightarrow> ustr" where
  "full_post caption hashtags = caption @ [10, 10] @ py_join [32] hashtags"

definition render :: "'f session \<Rightarrow> py_error + 'f view option" where
  "render ss =
     (case ss_caption ss of
        None \<Rightarrow> Inr None
      | Some caption \<Rightarrow>
          (case (ss_image ss, ss_keywords ss, ss_hashtags ss) of
             (Some img, Some kws, Some tags) \<Rightarrow>
               Inr (Some \<lparr>v_caption = caption, v_image = img, v_keywords = keywords_line kws,
                          v_hashtags = py_join [32] tags, v_post = full_post caption tags\<rparr>)
           | _ \<Rightarrow> Inl AttributeError))"

definition session_ok :: "('f, 'i) models \<Rightarrow> 'f session \<Rightarrow> bool" where
  "session_ok M ss =
     (case (ss_caption ss, ss_hashtags ss, ss_keywords ss, ss_image ss) of
        (None, None, None, None) \<Rightarrow> True
      | (Some c, Some tags, Some kws, Some img) \<Rightarrow>
          length tags \<le> 30 \<and> distinct tags \<and> kws = extract_keywords (nlp M) (str_hash M) c
      | _ \<Rightarrow> False)"

definition text_ui :: "ustr \<Rightarrow> bool ui_input" where
  "text_ui t = \<lparr>ui_option = FromText, ui_file = None, ui_text = t, ui_clicked = True\<rparr>"

definition image_ui :: "bool \<Rightarrow> bool ui_input" where
  "image_ui f = \<lparr>ui_option = FromImage, ui_file = Some f, ui_text = [], ui_clicked = True\<rparr>"

lemmas app_eval [py_eval] = empty_session_def store_result_def generate_from_image_def
  generate_from_text_def app_run_def rerun_def keywords_line_def full_post_def render_def
  session_ok_def text_ui_def image_ui_def

subsection \<open>One rerun\<close>

lemma store_result_ok:
  "length tags \<le> 30 \<Longrightarrow> distinct tags \<Longrightarrow> kws = extract_keywords (nlp M) (str_hash M) c \<Longrightarrow>
   session_ok M (store_result c (tags, kws) img ss)"
  by (simp add: session_ok_def store_result_def)

lemma suggest_then_store_ok:
  assumes "suggest_hashtags M dictf c s = Some (Inr r, s')"
  shows "session_ok M (store_result c r img ss)"
proof -
  obtain tags kws where r: "r = (tags, kws)" by fastforce
  show ?thesis
    using suggest_hashtags_result [OF assms [unfolded r]] unfolding r by (intro store_result_ok) simp_all
qed

lemma app_run_cases:
  assumes "app_run M dictf ui ss s = Some (Inr ss', s')"
  obtains "ss' = ss"
  | c r img s1 where "suggest_hashtags M dictf c s1 = Some (Inr r, s')"
      and "ss' = store_result c r img ss"
  using assms
  by (auto simp: app_run_def generate_from_image_def generate_from_text_def rbind_Some_Inr
      rlift_def rreturn_def split: gen_mode.splits option.splits if_splits)

lemma app_run_ok:
  assumes "app_run M dictf ui ss s = Some (Inr ss', s')" and "session_ok M ss"
  shows "session_ok M ss'"
  using assms(1)
proof (cases rule: app_run_cases)
  case 1
  with assms(2) show ?thesis by simp
next
  case (2 c r img s1)
  then show ?thesis by (simp add: suggest_then_store_ok)
qed

lemma rerun_ok:
  assumes "rerun M dictf ui st = Some st'" and "session_ok M (fst st)"
  shows "session_ok M (fst st')"
proof -
  obtain ss s where st: "st = (ss, s)" by fastforce
  show ?thesis
  proof (cases "app_run M dictf ui ss s")
    case None
    with assms(1) st show ?thesis by (simp add: rerun_def)
  next
    case (Some r)
    obtain x s' where r: "r = (x, s')" by fastforce
    show ?thesis
    proof (cases x)
      case (Inl e)
      with assms Some r st show ?thesis by (auto simp: rerun_def)
    next
      case (Inr ss')
      with assms(1) Some r st have "st' = (ss', s')" by (simp add: rerun_def)
      moreover have "session_ok M ss'"
        using app_run_ok [of M dictf ui ss s ss' s'] Some r Inr assms(2) st by simp
      ultimately show ?thesis by simp
    qed
  qed
qed

lemma reach_session_ok: "app_reach M dictf st \<Longrightarrow> session_ok M (fst st)"
proof (induction rule: app_reach.induct)
  case (start s)
  then show ?case by (simp add: session_ok_def empty_session_def)
next
  case (step st ui st')
  from step.hyps(2) step.IH show ?case by (rule rerun_ok)
qed

lemma render_session_ok: "session_ok M ss \<Longrightarrow> \<exists>v. render ss = Inr v"
  by (auto simp: session_ok_def render_def split: option.splits)

lemma set_py_join_space: "set (py_join [32] ws) \<subseteq> insert 32 (\<Union> (set ` set ws))"
  by (induction "[32::nat]" ws rule: py_join.induct) auto

lemma py_join_no_newline:
  assumes "\<forall>w \<in> set ws. \<forall>c \<in> set w. \<not> py_isspace c"
  shows "10 \<notin> set (py_join [32] ws)"
proof -
  have "py_isspace 10" by (simp add: py_isspace_def)
  with assms have "10 \<notin> \<Union> (set ` set ws)" by blast
  then show ?thesis using set_py_join_space [of ws] by auto
qed

subsection \<open>Properties of the script\<close>

text \<open>C17: in every state the script reaches, from the first run on and whatever the widgets,
  the models, the dictionary and the random draws, the four session keys are all set or all
  unset, the stored hashtags are at most 30 and distinct, and the stored keywords are those of
  the stored caption, also after reruns that raised.\<close>

theorem app_reach_session_ok:
  assumes "app_reach M dictf st"
  shows "session_ok M (fst st)"
  using assms by (rule reach_session_ok)

text \<open>C18: in every reachable state the display of lines 72--97 reads no missing session key:
  \<open>render\<close> never raises \<open>AttributeError\<close>.\<close>

theorem app_reach_render:
  assumes "app_reach M dictf st"
  shows "\<exists>v. render (fst st) = Inr v"
  using reach_session_ok [OF assms] by (rule render_session_ok)

text \<open>C19: a rerun without a click on the button, in text mode with an empty text area, or
  in image mode with no uploaded file generates nothing: the session is unchanged and no
  random word is drawn.\<close>

theorem app_run_idle:
  assumes "\<not> ui_clicked ui \<or> (ui_option ui = FromText \<and> ui_text ui = []) \<or>
           (ui_option ui = FromImage \<and> ui_file ui = None)"
  shows "app_run M dictf ui ss s = Some (Inr ss, s)"
  using assms by (auto simp: app_run_def rreturn_def split: gen_mode.splits option.splits)

text \<open>C20: a click in text mode with a non-empty text stores the caption of
  \<open>caption_from_text\<close>, the hashtags and keywords of \<open>suggest_hashtags\<close> on that caption,
  and no image, drawing first the template and then the trending sample.\<close>

theorem app_run_text:
  assumes "ui_option ui = FromText" and "ui_text ui \<noteq> []" and "ui_clicked ui"
    and "caption_from_text M (ui_text ui) s = Some (Inr c, s1)"
    and "suggest_hashtags M dictf c s1 = Some (Inr (tags, kws), s2)"
  shows "app_run M dictf ui ss s =
           Some (Inr (ss\<lparr>ss_caption := Some c, ss_hashtags := Some tags,
                         ss_keywords := Some kws, ss_image := Some None\<rparr>), s2)"
  using assms by (simp add: app_run_def generate_from_text_def rbind_apply store_result_def rreturn_def)

text \<open>C21: a click in image mode with an uploaded file stores the caption of
  \<open>caption_from_image\<close>, the hashtags and keywords of \<open>suggest_hashtags\<close> on it, and the
  file as the image to show.\<close>

theorem app_run_image:
  assumes "ui_option ui = FromImage" and "ui_file ui = Some f" and "ui_clicked ui"
    and "caption_from_image M f = Inr c"
    and "suggest_hashtags M dictf c s = Some (Inr (tags, kws), s2)"
  shows "app_run M dictf ui ss s =
           Some (Inr (ss\<lparr>ss_caption := Some c, ss_hashtags := Some tags,
                         ss_keywords := Some kws, ss_image := Some (Some f)\<rparr>), s2)"
  using assms by (simp add: app_run_def generate_from_image_def rbind_apply rlift_def store_result_def
      rreturn_def)

text \<open>C22: the downloaded post is the caption, a blank line and the hashtags joined by
  spaces; when no hashtag is empty or holds white space, splitting the part after the blank
  line gives the hashtags back, and that part has no line break.\<close>

theorem full_post_roundtrip:
  assumes "\<forall>w \<in> set tags. w \<noteq> [] \<and> (\<forall>ch \<in> set w. \<not> py_isspace ch)"
  shows "take (length c) (full_post c tags) = c \<and>
         take 2 (drop (length c) (full_post c tags)) = [10, 10] \<and>
         py_split (drop (length c + 2) (full_post c tags)) = tags \<and>
         10 \<notin> set (drop (length c + 2) (full_post c tags))"
proof -
  have d: "drop (length c + 2) (full_post c tags) = py_join [32] tags"
    by (simp add: full_post_def)
  have "py_split (py_join [32] tags) = tags" using assms by (rule py_split_py_join)
  moreover have "10 \<notin> set (py_join [32] tags)"
    using assms by (intro py_join_no_newline) blast
  moreover have "take (length c) (full_post c tags) = c" by (simp add: full_post_def)
  moreover have "take 2 (drop (length c) (full_post c tags)) = [10, 10]" by (simp add: full_post_def)
  ultimately show ?thesis unfolding d by (intro conjI)
qed

text \<open>C26: with a fair random stream, a dictionary of arrays with 3 to 21 trending tags and a
  summariser that answers, a click in text mode with a non-empty text always ends the rerun
  with a caption stored and no image, and the stream stays fair for the next rerun.\<close>

theorem app_text_click_stores:
  assumes "ui_option ui = FromText" and "ui_text ui \<noteq> []" and "ui_clicked ui"
    and "bart_pipeline M (ui_text ui) bart_args \<noteq> []"
    and "load_hashtags dictf = Inr d" and "all_arrays d"
    and "map_of d trending_key = Some (JArr tr)" and "3 \<le> length tr" and "length tr \<le> 21"
    and "msb_clear_often s"
  shows "\<exists>ss' s'. rerun M dictf ui (ss, s) = Some (ss', s') \<and> ss_caption ss' \<noteq> None \<and>
           ss_image ss' = Some None \<and> msb_clear_often s'"
proof -
  obtain summary rest where b: "bart_pipeline M (ui_text ui) bart_args = summary # rest"
    using assms(4) by (cases "bart_pipeline M (ui_text ui) bart_args") auto
  obtain c s1 where c: "caption_from_text M (ui_text ui) s = Some (Inr c, s1)" and "msb_clear_often s1"
    using caption_from_text_returns [OF b assms(10)] by blast
  then obtain tags kws s2 where h: "suggest_hashtags M dictf c s1 = Some (Inr (tags, kws), s2)"
      and "msb_clear_often s2"
    using suggest_hashtags_returns [OF assms(5-9)] by blast
  have "rerun M dictf ui (ss, s) = Some (store_result c (tags, kws) None ss, s2)"
    using assms(1-3) c h
    by (simp add: rerun_def app_run_def generate_from_text_def rbind_apply rreturn_def)
  with \<open>msb_clear_often s2\<close> show ?thesis by (simp add: store_result_def)
qed

text \<open>C30: a failing step after the caption keeps the page as it was: with a missing or
  broken \<open>hashtags.json\<close>, a click in text mode draws the template (the stream moves on)
  and then \<open>suggest_hashtags\<close> raises, so the rerun ends with the session unchanged.\<close>

theorem app_rerun_error_keeps_session:
  assumes "ui_option ui = FromText" and "ui_text ui \<noteq> []" and "ui_clicked ui"
    and "bart_pipeline M (ui_text ui) bart_args \<noteq> []"
    and "load_hashtags dictf = Inl e" and "msb_clear_often s"
  shows "\<exists>s'. app_run M dictf ui ss s = Some (Inl e, s') \<and>
           rerun M dictf ui (ss, s) = Some (ss, s') \<and> msb_clear_often s'"
proof -
  obtain summary rest where b: "bart_pipeline M (ui_text ui) bart_args = summary # rest"
    using assms(4) by (cases "bart_pipeline M (ui_text ui) bart_args") auto
  obtain c s1 where c: "caption_from_text M (ui_text ui) s = Some (Inr c, s1)" and "msb_clear_often s1"
    using caption_from_text_returns [OF b assms(6)] by blast
  have h: "suggest_hashtags M dictf c s1 = Some (Inl e, s1)"
    using assms(5) by (simp add: suggest_hashtags_def rraise_def)
  have "app_run M dictf ui ss s = Some (Inl e, s1)"
    using assms(1-3) c h by (simp add: app_run_def generate_from_text_def rbind_apply)
  with \<open>msb_clear_often s1\<close> show ?thesis by (simp add: rerun_def)
qed

subsection \<open>Witnesses\<close>

text \<open>The first run of the specification's example: the user types a text about a sunset at
  the beach and clicks.\<close>

lemma beach_rerun:
  "rerun example_models beach_file (text_ui (u ''sunset at the beach'')) (empty_session, sconst 0) =
     Some (\<lparr>ss_caption = Some (u ''Living for moments like this beach '' @ [0x2728]),
            ss_hashtags = Some [u ''#beach'', u ''#a'', u ''#d'', u ''#c''],
            ss_keywords = Some [u ''beach'', u ''sunset'', u ''the beach''],
            ss_image = Some None\<rparr>, sconst 0)"
  by (simp add: py_eval)

lemma beach_reach:
  "app_reach example_models beach_file
     (\<lparr>ss_caption = Some (u ''Living for moments like this beach '' @ [0x2728]),
       ss_hashtags = Some [u ''#beach'', u ''#a'', u ''#d'', u ''#c''],
       ss_keywords = Some [u ''beach'', u ''sunset'', u ''the beach''],
       ss_image = Some None\<rparr>, sconst 0)"
  by (rule app_reach.step [OF app_reach.start beach_rerun])

theorem app_reach_session_ok_witness:
  "session_ok example_models
     \<lparr>ss_caption = Some (u ''Living for moments like this beach '' @ [0x2728]),
      ss_hashtags = Some [u ''#beach'', u ''#a'', u ''#d'', u ''#c''],
      ss_keywords = Some [u ''beach'', u ''sunset'', u ''the beach''],
      ss_image = (Some None :: bool option option)\<rparr>"
  using app_reach_session_ok [OF beach_reach] by simp

theorem app_reach_render_witness:
  "\<exists>v. render
     \<lparr>ss_caption = Some (u ''Living for moments like this beach '' @ [0x2728]),
      ss_hashtags = Some [u ''#beach'', u ''#a'', u ''#d'', u ''#c''],
      ss_keywords = Some [u ''beach'', u ''sunset'', u ''the beach''],
      ss_image = (Some None :: bool option option)\<rparr> = Inr v"
  using app_reach_render [OF beach_reach] by simp

theorem app_run_idle_witness:
  "app_run example_models beach_file (text_ui []) empty_session (sconst 0) =
     Some (Inr empty_session, sconst 0)"
  by (rule app_run_idle) (simp add: text_ui_def)

theorem app_run_text_witness:
  "app_run example_models beach_file (text_ui (u ''sunset at the beach'')) empty_session (sconst 0) =
     Some (Inr (empty_session\<lparr>ss_caption := Some (u ''Living for moments like this beach '' @ [0x2728]),
        ss_hashtags := Some [u ''#beach'', u ''#a'', u ''#d'', u ''#c''],
        ss_keywords := Some [u ''beach'', u ''sunset'', u ''the beach''],
        ss_image := Some None\<rparr>), sconst 0)"
proof -
  have c: "caption_from_text example_models (u ''sunset at the beach'') (sconst 0) =
      Some (Inr (u ''Living for moments like this beach '' @ [0x2728]), sconst 0)"
    by (simp add: py_eval)
  have h: "suggest_hashtags example_models beach_file (u ''Living for moments like this beach '' @ [0x2728])
      (sconst 0) = Some (Inr ([u ''#beach'', u ''#a'', u ''#d'', u ''#c''],
        [u ''beach'', u ''sunset'', u ''the beach'']), sconst 0)"
    by (simp add: py_eval)
  show ?thesis
  proof (rule app_run_text [OF _ _ _ _ h])
    show "ui_text (text_ui (u ''sunset at the beach'')) \<noteq> []" by (simp add: text_ui_def u_def)
  qed (simp_all add: text_ui_def c)
qed

theorem app_run_image_witness:
  "app_run example_models beach_file (image_ui True) empty_session (sconst 0) =
     Some (Inr (empty_session\<lparr>ss_caption := Some (u ''a dog on the sandy beach''),
        ss_hashtags := Some [u ''#beach'', u ''#a'', u ''#d'', u ''#c''],
        ss_keywords := Some [u ''beach'', u ''sunset'', u ''the beach''],
        ss_image := Some (Some True)\<rparr>), sconst 0)"
  by (rule app_run_image) (simp_all add: py_eval first_max_def py_max_key_first_max)

theorem full_post_roundtrip_witness:
  "take (length (u ''hello'')) (full_post (u ''hello'') [u ''#a'', u ''#b'']) = u ''hello'' \<and>
   take 2 (drop (length (u ''hello'')) (full_post (u ''hello'') [u ''#a'', u ''#b''])) = [10, 10] \<and>
   py_split (drop (length (u ''hello'') + 2) (full_post (u ''hello'') [u ''#a'', u ''#b''])) =
     [u ''#a'', u ''#b''] \<and>
   10 \<notin> set (drop (length (u ''hello'') + 2) (full_post (u ''hello'') [u ''#a'', u ''#b'']))"
  by (rule full_post_roundtrip) (simp add: u_def py_isspace_def)

theorem app_text_click_stores_witness:
  "\<exists>ss' s'. rerun example_models beach_file (text_ui (u ''sunset at the beach'')) (empty_session, sconst 0) =
     Some (ss', s') \<and> ss_caption ss' \<noteq> None \<and> ss_image ss' = Some None \<and> msb_clear_often s'"
  by (rule app_text_click_stores [OF _ _ _ _ load_beach_file,
        where tr = "[u ''#a'', u ''#b'', u ''#c'', u ''#d'']"])
    (simp_all add: text_ui_def u_def example_models_def all_arrays_def beach_dict_def
      trending_key_def msb_clear_often_sconst0)

theorem app_rerun_error_keeps_session_witness:
  "\<exists>s'. app_run example_models NoFile (text_ui (u ''sunset at the beach'')) empty_session (sconst 0) =
      Some (Inl FileNotFoundError, s') \<and>
    rerun example_models NoFile (text_ui (u ''sunset at the beach'')) (empty_session, sconst 0) =
      Some (empty_session, s') \<and> msb_clear_often s'"
  by (rule app_rerun_error_keeps_session)
    (simp_all add: text_ui_def u_def example_models_def msb_clear_often_sconst0)

end
