(* ===== verification/Spec2Isabelle.thy ===== *)
theory Spec2Isabelle
  imports App
begin

text \<open>
  \<^bold>\<open>A verification model of GenAI-Insta-Caption-Assistant.\<close>

  The program (\<open>src/caption_utils.py\<close>, \<open>src/app.py\<close>) turns a text or an image into a
  caption and hashtags. \<open>caption_utils.py\<close> loads four models once (spaCy, BART, the BLIP
  processor and model), and offers \<open>extract_keywords\<close>, \<open>caption_from_text\<close>,
  \<open>caption_from_image\<close> and \<open>suggest_hashtags\<close>; \<open>app.py\<close> is a Streamlit script that,
  on each rerun, calls a caption generator and then \<open>suggest_hashtags\<close> and stores the
  results in the session state. The captions and the hashtags both go through
  \<open>extract_keywords\<close>; randomness comes from Python's module-level \<open>random\<close> generator
  (\<open>random.choice\<close> for the template, \<open>random.sample\<close> for the trending tags).

  \<^bold>\<open>Theories.\<close>
  \<^item> \<open>Prelude\<close>: Python strings as code-point lists (\<open>ustr\<close>), the exceptions
    (\<open>py_error\<close>), the result type \<open>'a rnd\<close> of computations that draw random words, may
    raise and may not return (\<open>rbind\<close>, \<open>rreturn\<close>, \<open>rraise\<close>), \<open>list(set(xs))\<close> as
    \<open>py_set_list\<close> over an explicit hash order, and \<open>max(xs, key=f)\<close> as \<open>py_max_key\<close>
    with its equivalence to the reference \<open>first_max\<close>.
  \<^item> \<open>PyStr\<close>: \<open>str.split()\<close>, \<open>str.lower()\<close>, \<open>str.join\<close>, \<open>str.format\<close> on
    \<open>{}\<close>-templates, with the round trip of split and join.
  \<^item> \<open>PyRandom\<close>: CPython 3.12's \<open>getrandbits\<close>, \<open>_randbelow_with_getrandbits\<close> (a
    rejection loop, \<^theory_text>\<open>partial_function (option)\<close>), \<open>choice\<close> and both branches of
    \<open>sample\<close>; bounds on the drawn values, the sub-multiset property of samples, and
    termination when the generator's stream has infinitely many words with a clear top bit
    (\<open>msb_clear_often\<close>). A word with a clear top bit is below \<open>2 ^ (k - 1) \<le> n\<close>, so
    this condition is enough for every \<open>randbelow n\<close> with \<open>0 < n < 2 ^ 32\<close>.
  \<^item> \<open>RandomSample\<close>: termination of both branches of \<open>random.sample\<close> for every
    population below \<open>2 ^ 32\<close>.
  \<^item> \<open>Models\<close>: the loaded models as the record \<open>models\<close> (lines 7--11), of function
    fields: every theorem holds for every tagger, summariser, captioner and hash order.
  \<^item> \<open>Keywords\<close>: \<open>extract_keywords\<close> (lines 60--72): exact membership, stop words
    excluded, and lower case when the tagger returns slices of its input. The order of the
    result is \<open>list(set(...))\<close>'s, which depends on the hash seed; \<open>py_set_list_any_order\<close>
    shows every order of the keywords occurs, so the caption's "first keyword" is not fixed
    by the text.
  \<^item> \<open>Captions\<close>: the templates, \<open>caption_from_text\<close> and \<open>caption_from_image\<close>
    (lines 14--57): each template is a format string with one field, a text caption is a
    template around the main keyword and 12 to 39 code points longer than it, the image
    caption is the first candidate with the most words, the fallback \<open>"moment"\<close>, and an
    undecodable image raises. The summariser's empty result and a generation without
    sequences are modelled as the \<open>IndexError\<close> and \<open>ValueError\<close> the code would raise,
    but the real pipeline and \<open>generate(num_return_sequences=3)\<close> never produce them, so no
    claim is made about them.
  \<^item> \<open>Hashtags\<close>: the JSON dictionary, the two matching loops, the trending sample and
    \<open>suggest_hashtags\<close> (lines 75--95). The matching loops are shown equal to a closed
    form (\<open>direct_matches_eq\<close>, \<open>related_matches_eq\<close>); the claims bound the result
    (at most 30, distinct), say where every hashtag comes from, when all matches survive the
    cut at 30, what the specification's beach example returns on every fair stream, and
    each error path (missing or non-JSON file, scalar values, fewer than 3 trending tags);
    a string value contributes its characters. \<open>suggest_hashtags\<close> returns on fair streams for any
    trending list of at least 3 entries, and the exact-key loop is redundant next to the
    substring loop.
  \<^item> \<open>App\<close>: \<open>src/app.py\<close>. One Streamlit rerun is \<open>app_run\<close> over the widget values
    (\<open>ui_input\<close>) and \<open>st.session_state\<close> (\<open>session\<close>, lines 42--70); an exception
    keeps the state (\<open>rerun\<close>); the reachable states are the inductive \<open>app_reach\<close>
    over the session and the random stream, which persists across reruns in one process.
    Rule induction gives the invariant \<open>session_ok\<close> (keys set together, hashtags at most
    30 and distinct, keywords those of the caption), hence the display \<open>render\<close> (lines
    72--97) never reads a missing key. The download text \<open>full_post\<close> (line 91) splits back
    into its hashtags. The two branches compose the component theorems (\<open>app_run_text\<close>,
    \<open>app_run_image\<close>), and a click with text always stores a caption under the
    termination conditions above (\<open>app_text_click_stores\<close>), while a failing
    dictionary leaves the session as it was (\<open>app_rerun_error_keeps_session\<close>).

  \<^bold>\<open>Random draws and fuel.\<close> No fuel is used: the loops of \<open>random\<close> are
  \<^theory_text>\<open>partial_function (option)\<close>, \<open>None\<close> meaning "does not return". Termination is
  proved under a fairness condition on the stream of output words. \<open>msb_clear_often\<close>
  (infinitely many words with a clear top bit) is enough for every rejection loop of
  \<open>_randbelow\<close> with \<open>n < 2 ^ 32\<close>, hence for \<open>choice\<close> and the pool branch of
  \<open>sample\<close>; the constant stream \<open>sconst 0\<close> of most witnesses satisfies it.
  \<open>RandomSample\<close> proves that the set branch of \<open>sample\<close> (populations above 21 for 3
  draws) returns as well, under \<open>every_word_often\<close> (every 32-bit word keeps occurring):
  each redraw reads one word, and a word whose top bits are a fresh index ends the loop.
  The counter stream \<open>counter_stream\<close> satisfies it. No bound on the number of draws is
  claimed.

  \<^bold>\<open>Not modelled.\<close> The models themselves (spaCy, BART, BLIP, PIL decoding) are opaque
  fields of \<open>models\<close>; torch's random state used by BART's sampling is part of the
  summariser. \<open>str.lower\<close> is modelled on ASCII and Latin-1 only. JSON values other than
  arrays of strings, strings and scalars, and top-level JSON values that are not objects,
  are not modelled. The Streamlit page layout, CSS and widgets of \<open>app.py\<close> lines 1--34
  are presentation; the Streamlit widgets are modelled only by the values they return.
\<close>

end
